theory Spec2Isabelle
  imports Main "HOL-Library.Sublist" "HOL-Library.AList" "HOL-Library.Code_Target_Nat"
begin

section \<open>The EPUB metadata extractor of the reader's server\<close>

text \<open>
  The functions are those of the module that the server's \<open>index.ts\<close> imports as
  \<open>./epub\<close> (\<open>safeJoin\<close>, \<open>parseOpf\<close> and what they call).
  The module reads an unpacked EPUB: it finds the package document (OPF), reads title,
  manifest and spine from it, builds a list of chapters from the NCX, the navigation
  document or the spine documents themselves, looks for a cover and guesses the writing
  direction. Everything it touches outside itself is made explicit here:
  \<^item> the file system is a function from absolute path to node (\<open>fs\<close>);
  \<^item> the XML parser (\<open>fast-xml-parser\<close>) is a function from text to a JSON value
    or a failure (\<open>xml\<close>);
  \<^item> the working directory used by \<open>path.resolve\<close> is the string \<open>cwd\<close>;
  \<^item> Node's \<open>path\<close> functions (POSIX flavour) and the JavaScript regular expressions
    the module uses are modelled as executable functions on strings.
  A JavaScript string is a list of UTF-16 code units, each a natural number; \<open>U\<close>
  turns an ASCII literal into such a list and \<open>C\<close> a character into its code unit.
\<close>

subsection \<open>JavaScript strings\<close>

type_synonym jstring = "nat list"

definition U :: "string \<Rightarrow> jstring" where
  "U s = map of_char s"

definition C :: "char \<Rightarrow> nat" where
  "C c = of_char c"

definition js_ws :: "nat \<Rightarrow> bool" where
  \<comment> \<open>the class \<open>\s\<close>, which is also what \<open>trim\<close> removes: white space and line
      terminators\<close>
  "js_ws c = (c \<in> set [0x09, 0x0A, 0x0B, 0x0C, 0x0D, 0x20, 0xA0, 0x1680, 0x2000, 0x2001, 0x2002,
                          0x2003, 0x2004, 0x2005, 0x2006, 0x2007, 0x2008, 0x2009, 0x200A, 0x2028,
                          0x2029, 0x202F, 0x205F, 0x3000, 0xFEFF])"

definition js_word :: "nat \<Rightarrow> bool" where
  \<comment> \<open>the class \<open>\w\<close>\<close>
  "js_word c = (c \<in> set (U ''abcdefghijklmnopqrstuvwxyzABCDEFGHIJKLMNOPQRSTUVWXYZ0123456789_''))"

definition lower :: "nat \<Rightarrow> nat" where
  \<comment> \<open>case folding of the flag \<open>i\<close>: the literals of the module are ASCII, and no
      code unit outside ASCII is folded onto an ASCII one\<close>
  "lower c = (if 0x41 \<le> c \<and> c \<le> 0x5A then c + 0x20 else c)"

definition trim :: "jstring \<Rightarrow> jstring" where
  "trim s = rev (dropWhile js_ws (rev (dropWhile js_ws s)))"

definition startsWith :: "jstring \<Rightarrow> jstring \<Rightarrow> bool" where
  "startsWith s p = prefix p s"

definition strip_fragment :: "jstring \<Rightarrow> jstring" where
  \<comment> \<open>\<open>s.split("#")[0]\<close>\<close>
  "strip_fragment s = takeWhile (\<lambda>c. c \<noteq> (C (CHR ''#''))) s"

definition slashes :: "jstring \<Rightarrow> jstring" where
  \<comment> \<open>\<open>s.replace(/\\/g, "/")\<close>\<close>
  "slashes s = map (\<lambda>c. if c = 0x5C then (C (CHR ''/'')) else c) s"

fun split_on :: "nat \<Rightarrow> jstring \<Rightarrow> jstring list" where
  "split_on d [] = [[]]"
| "split_on d (c # cs) =
     (if c = d then [] # split_on d cs
      else (case split_on d cs of [] \<Rightarrow> [[c]] | w # ws \<Rightarrow> (c # w) # ws))"

fun join_with :: "jstring \<Rightarrow> jstring list \<Rightarrow> jstring" where
  "join_with d [] = []"
| "join_with d [w] = w"
| "join_with d (w # ws) = w @ d @ join_with d ws"

fun digits :: "nat \<Rightarrow> jstring" where
  "digits n = (if n < 10 then [(U ''0123456789'') ! n] else digits (n div 10) @ [(U ''0123456789'') ! (n mod 10)])"

declare digits.simps [simp del]

subsection \<open>Regular expressions\<close>

text \<open>
  The fragment of JavaScript's regular expressions the module uses: literals (compared
  without regard to ASCII case, as under the flag \<open>i\<close>; the expressions without that
  flag contain no letters), one character of a class, greedy and lazy repetition of a
  class, alternatives, sequence, one level of capture groups, \<open>$\<close>, and \<open>\b\<close> after a
  word character. \<open>rx_match r s\<close> lists the ways \<open>r\<close> matches a prefix of \<open>s\<close>, in the
  order a backtracking matcher tries them: the captures and the rest of the input.
\<close>

datatype rx =
    Eps
  | Lit jstring
  | Cls "nat \<Rightarrow> bool"
  | Star "nat \<Rightarrow> bool"
  | Plus "nat \<Rightarrow> bool"
  | Lazy "nat \<Rightarrow> bool"
  | Alt rx rx
  | Seq rx rx
  | Grp rx
  | Eos
  | WordEnd

fun lit_rest :: "jstring \<Rightarrow> jstring \<Rightarrow> jstring option" where
  \<comment> \<open>the input after the literal, if the input starts with it\<close>
  "lit_rest [] s = Some s"
| "lit_rest (c # cs) [] = None"
| "lit_rest (c # cs) (x # xs) = (if lower x = lower c then lit_rest cs xs else None)"

fun rx_match :: "rx \<Rightarrow> jstring \<Rightarrow> (jstring list \<times> jstring) list" where
  "rx_match Eps s = [([], s)]"
| "rx_match (Lit l) s = (case lit_rest l s of None \<Rightarrow> [] | Some rest \<Rightarrow> [([], rest)])"
| "rx_match (Cls p) s = (case s of [] \<Rightarrow> [] | c # cs \<Rightarrow> if p c then [([], cs)] else [])"
| "rx_match (Star p) s = map (\<lambda>k. ([], drop k s)) (rev [0 ..< Suc (length (takeWhile p s))])"
| "rx_match (Plus p) s = map (\<lambda>k. ([], drop k s)) (rev [1 ..< Suc (length (takeWhile p s))])"
| "rx_match (Lazy p) s = map (\<lambda>k. ([], drop k s)) [0 ..< Suc (length (takeWhile p s))]"
| "rx_match (Alt a b) s = rx_match a s @ rx_match b s"
| "rx_match (Seq a b) s =
     concat (map (\<lambda>(c1, r1). map (\<lambda>(c2, r2). (c1 @ c2, r2)) (rx_match b r1)) (rx_match a s))"
| "rx_match (Grp a) s = map (\<lambda>(c, r). (c @ [take (length s - length r) s], r)) (rx_match a s)"
| "rx_match Eos s = (if s = [] then [([], [])] else [])"
| "rx_match WordEnd s = (case s of [] \<Rightarrow> [([], [])] | c # cs \<Rightarrow> if js_word c then [] else [([], s)])"

fun rx_seq :: "rx list \<Rightarrow> rx" where
  "rx_seq [] = Eps"
| "rx_seq [r] = r"
| "rx_seq (r # rs) = Seq r (rx_seq rs)"

fun rx_exec :: "rx \<Rightarrow> jstring \<Rightarrow> (jstring list \<times> jstring) option" where
  \<comment> \<open>the leftmost match: its captures and the input after it\<close>
  "rx_exec r [] = (case rx_match r [] of [] \<Rightarrow> None | m # _ \<Rightarrow> Some m)"
| "rx_exec r (c # cs) = (case rx_match r (c # cs) of [] \<Rightarrow> rx_exec r cs | m # _ \<Rightarrow> Some m)"

definition rx_test :: "rx \<Rightarrow> jstring \<Rightarrow> bool" where
  "rx_test r s = (rx_exec r s \<noteq> None)"

definition group :: "nat \<Rightarrow> jstring list \<Rightarrow> jstring" where
  \<comment> \<open>\<open>m[i] || ""\<close>\<close>
  "group i caps = (if i - 1 < length caps then caps ! (i - 1) else [])"

function rx_exec_all :: "rx \<Rightarrow> jstring \<Rightarrow> jstring list list" where
  \<comment> \<open>\<open>while ((m = re.exec(s)))\<close> with the flag \<open>g\<close>: each search starts where the last
      match ended. The expressions used here never match the empty string, so the test
      on the length always succeeds.\<close>
  "rx_exec_all r s =
     (case rx_exec r s of
        None \<Rightarrow> []
      | Some (caps, rest) \<Rightarrow>
          if length rest < length s then caps # rx_exec_all r rest else [caps])"
  by pat_completeness auto
termination
  by (relation "measure (\<lambda>(r, s). length s)") auto

declare rx_exec_all.simps [simp del]

fun rx_replace_first :: "rx \<Rightarrow> jstring \<Rightarrow> jstring \<Rightarrow> jstring" where
  \<comment> \<open>\<open>s.replace(r, rep)\<close> without the flag \<open>g\<close>\<close>
  "rx_replace_first r rep [] = (case rx_match r [] of [] \<Rightarrow> [] | (_, rest) # _ \<Rightarrow> rep @ rest)"
| "rx_replace_first r rep (c # cs) =
     (case rx_match r (c # cs) of
        [] \<Rightarrow> c # rx_replace_first r rep cs
      | (_, rest) # _ \<Rightarrow> rep @ rest)"

function rx_replace_all :: "rx \<Rightarrow> jstring \<Rightarrow> jstring \<Rightarrow> jstring" where
  \<comment> \<open>\<open>s.replace(r, rep)\<close> with the flag \<open>g\<close>, for expressions that match no empty string\<close>
  "rx_replace_all r rep s =
     (case s of
        [] \<Rightarrow> []
      | c # cs \<Rightarrow>
         (case rx_match r s of
            [] \<Rightarrow> c # rx_replace_all r rep cs
          | (_, rest) # _ \<Rightarrow>
              if length rest < length s then rep @ rx_replace_all r rep rest
              else c # rx_replace_all r rep cs))"
  by pat_completeness auto
termination
  by (relation "measure (\<lambda>(r, rep, s). length s)") auto

declare rx_replace_all.simps [simp del]

fun split_ws :: "jstring \<Rightarrow> jstring list" where
  \<comment> \<open>\<open>s.split(/\s+/)\<close>\<close>
  "split_ws [] = [[]]"
| "split_ws (c # cs) =
     (if js_ws c then (if cs \<noteq> [] \<and> js_ws (hd cs) then split_ws cs else [] # split_ws cs)
      else (case split_ws cs of [] \<Rightarrow> [[c]] | w # ws \<Rightarrow> (c # w) # ws))"

definition any_char :: "nat \<Rightarrow> bool" where
  \<comment> \<open>\<open>[\s\S]\<close>\<close>
  "any_char c = True"

definition not_char :: "jstring \<Rightarrow> nat \<Rightarrow> bool" where
  \<comment> \<open>\<open>[^...]\<close>\<close>
  "not_char cs c = (c \<notin> set cs)"

definition quote :: "nat \<Rightarrow> bool" where
  \<comment> \<open>\<open>["']\<close>\<close>
  "quote c = (c = 0x22 \<or> c = 0x27)"

definition rx_tag :: rx where
  \<comment> \<open>\<open>/<[^>]+>/\<close>\<close>
  "rx_tag = rx_seq [Lit (U ''<''), Plus (not_char (U ''>'')), Lit (U ''>'')]"

definition rx_title :: rx where
  \<comment> \<open>\<open>/<title[^>]*>([\s\S]*?)<\/title>/i\<close>\<close>
  "rx_title = rx_seq [Lit (U ''<title''), Star (not_char (U ''>'')), Lit (U ''>''), Grp (Lazy any_char), Lit (U ''</title>'')]"

definition rx_ext :: rx where
  \<comment> \<open>\<open>/\.[^.]+$/\<close>\<close>
  "rx_ext = rx_seq [Lit (U ''.''), Plus (not_char (U ''.'')), Eos]"

definition rx_nav :: rx where
  \<comment> \<open>\<open>/<nav[^>]*(?:epub:type|role)=["'](?:toc|doc-toc)["'][^>]*>([\s\S]*?)<\/nav>/i\<close>\<close>
  "rx_nav = rx_seq [Lit (U ''<nav''), Star (not_char (U ''>'')), Alt (Lit (U ''epub:type'')) (Lit (U ''role'')),
       Lit (U ''=''), Cls quote, Alt (Lit (U ''toc'')) (Lit (U ''doc-toc'')), Cls quote,
       Star (not_char (U ''>'')), Lit (U ''>''), Grp (Lazy any_char), Lit (U ''</nav>'')]"

definition rx_anchor :: rx where
  \<comment> \<open>\<open>/<a\b[^>]*href\s*=\s*["']([^"']+)["'][^>]*>([\s\S]*?)<\/a>/gi\<close>\<close>
  "rx_anchor = rx_seq [Lit (U ''<a''), WordEnd, Star (not_char (U ''>'')), Lit (U ''href''), Star js_ws,
       Lit (U ''=''), Star js_ws, Cls quote, Grp (Plus (\<lambda>c. \<not> quote c)), Cls quote,
       Star (not_char (U ''>'')), Lit (U ''>''), Grp (Lazy any_char), Lit (U ''</a>'')]"

definition rx_img :: rx where
  \<comment> \<open>\<open>/<img[^>]*src=["']([^"']+)["']/i\<close>\<close>
  "rx_img = rx_seq [Lit (U ''<img''), Star (not_char (U ''>'')), Lit (U ''src=''), Cls quote,
       Grp (Plus (\<lambda>c. \<not> quote c)), Cls quote]"

definition rx_image :: rx where
  \<comment> \<open>\<open>/<image[^>]*(?:xlink:href|href)=["']([^"']+)["']/i\<close>\<close>
  "rx_image = rx_seq [Lit (U ''<image''), Star (not_char (U ''>'')), Alt (Lit (U ''xlink:href'')) (Lit (U ''href'')),
       Lit (U ''=''), Cls quote, Grp (Plus (\<lambda>c. \<not> quote c)), Cls quote]"

definition rx_writing_mode :: rx where
  \<comment> \<open>\<open>/writing-mode\s*:\s*vertical/i\<close>\<close>
  "rx_writing_mode = rx_seq [Lit (U ''writing-mode''), Star js_ws, Lit (U '':''), Star js_ws, Lit (U ''vertical'')]"

definition rx_vertical :: rx where
  \<comment> \<open>\<open>/vertical-rl|vertical-lr/i\<close>\<close>
  "rx_vertical = Alt (Lit (U ''vertical-rl'')) (Lit (U ''vertical-lr''))"

definition rx_rtl :: rx where
  \<comment> \<open>\<open>/page-progression-direction\s*=\s*["']rtl["']/i\<close>\<close>
  "rx_rtl = rx_seq [Lit (U ''page-progression-direction''), Star js_ws, Lit (U ''=''), Star js_ws,
       Cls quote, Lit (U ''rtl''), Cls quote]"

definition stripTags :: "jstring \<Rightarrow> jstring" where
  "stripTags s = trim (rx_replace_all (Plus js_ws) (U '' '') (rx_replace_all rx_tag (U '' '') s))"

definition strip_ext :: "jstring \<Rightarrow> jstring" where
  \<comment> \<open>\<open>base.replace(/\.[^.]+$/, "")\<close>\<close>
  "strip_ext base = rx_replace_first rx_ext [] base"

subsection \<open>Node's \<open>path\<close> module (POSIX)\<close>

fun normalize_step :: "bool \<Rightarrow> jstring list \<Rightarrow> jstring \<Rightarrow> jstring list" where
  \<comment> \<open>one segment of \<open>normalizeString\<close>; the stack holds the segments kept so far, last first\<close>
  "normalize_step allowAbove st seg =
     (if seg = [] \<or> seg = (U ''.'') then st
      else if seg = (U ''..'') then
        (case st of
           [] \<Rightarrow> if allowAbove then [(U ''..'')] else []
         | t # ts \<Rightarrow> if t = (U ''..'') then (if allowAbove then (U ''..'') # st else st) else ts)
      else seg # st)"

definition normalizeString :: "jstring \<Rightarrow> bool \<Rightarrow> jstring" where
  "normalizeString p allowAbove =
     join_with (U ''/'') (rev (foldl (normalize_step allowAbove) [] (split_on (C (CHR ''/'')) p)))"

definition is_absolute :: "jstring \<Rightarrow> bool" where
  "is_absolute p = (case p of [] \<Rightarrow> False | c # _ \<Rightarrow> c = (C (CHR ''/'')))"

definition resolve_args :: "jstring \<Rightarrow> jstring \<Rightarrow> jstring \<Rightarrow> jstring \<times> bool" where
  \<comment> \<open>the loop of \<open>path.resolve(base, rel)\<close>: arguments right to left, then the working
      directory, until the path is absolute; empty arguments are skipped\<close>
  "resolve_args cwd base rel =
     (let (p1, a1) = (if rel = [] then ([], False) else (rel @ (U ''/''), is_absolute rel));
          (p2, a2) = (if a1 \<or> base = [] then (p1, a1) else (base @ (U ''/'') @ p1, is_absolute base));
          (p3, a3) = (if a2 \<or> cwd = [] then (p2, a2) else (cwd @ (U ''/'') @ p2, is_absolute cwd))
      in (p3, a3))"

definition path_resolve :: "jstring \<Rightarrow> jstring \<Rightarrow> jstring \<Rightarrow> jstring" where
  "path_resolve cwd base rel =
     (let (p, resolvedAbsolute) = resolve_args cwd base rel;
          n = normalizeString p (\<not> resolvedAbsolute)
      in if resolvedAbsolute then (U ''/'') @ n else if n \<noteq> [] then n else (U ''.''))"

definition strip_trailing_slashes :: "jstring \<Rightarrow> jstring" where
  "strip_trailing_slashes p = rev (dropWhile (\<lambda>c. c = (C (CHR ''/''))) (rev p))"

definition posix_basename :: "jstring \<Rightarrow> jstring" where
  \<comment> \<open>\<open>path.posix.basename(p)\<close>: trailing slashes dropped, then what follows the last slash\<close>
  "posix_basename p =
     rev (takeWhile (\<lambda>c. c \<noteq> (C (CHR ''/''))) (rev (strip_trailing_slashes p)))"

definition posix_dirname :: "jstring \<Rightarrow> jstring" where
  \<comment> \<open>\<open>path.posix.dirname(p)\<close>: the scan runs from the end down to index 1\<close>
  "posix_dirname p =
     (case p of
        [] \<Rightarrow> (U ''.'')
      | c # cs \<Rightarrow>
         (let hasRoot = (c = (C (CHR ''/'')));
              r = dropWhile (\<lambda>x. x \<noteq> (C (CHR ''/''))) (dropWhile (\<lambda>x. x = (C (CHR ''/''))) (rev cs))
          in if r = [] then (if hasRoot then (U ''/'') else (U ''.''))
             else if hasRoot \<and> length r = 1 then (U ''//'')
             else c # rev (tl r)))"

subsection \<open>Errors, the file system, the XML parser\<close>

datatype error =
    PathTraversal      \<comment> \<open>\<open>Error("Path traversal blocked")\<close>\<close>
  | EmptySpine         \<comment> \<open>\<open>Error("Spine is empty (could not resolve itemrefs).")\<close>\<close>
  | IOError            \<comment> \<open>a rejected \<open>fs.readFile\<close> or a throwing \<open>readFileSync\<close>\<close>
  | XmlError           \<comment> \<open>what \<open>XMLParser.parse\<close> throws\<close>
  | TypeError          \<comment> \<open>a method call on a value that has no such method\<close>

datatype fsnode = File jstring | Dir

type_synonym filesystem = "jstring \<Rightarrow> fsnode option"

definition existsSync :: "filesystem \<Rightarrow> jstring \<Rightarrow> bool" where
  "existsSync fs p = (fs p \<noteq> None)"

definition readText :: "filesystem \<Rightarrow> jstring \<Rightarrow> error + jstring" where
  "readText fs p = (case fs p of Some (File s) \<Rightarrow> Inr s | _ \<Rightarrow> Inl IOError)"

subsection \<open>Parsed XML\<close>

text \<open>
  What \<open>XMLParser.parse\<close> returns is a JSON value: an element is an object whose keys
  are child element names, attribute names prefixed with \<open>@_\<close>, and \<open>#text\<close>; repeated
  children are an array; a leaf is a string, a number or a boolean. \<open>JUndef\<close> is
  \<open>undefined\<close>. A number is kept as the text \<open>String(x)\<close> prints for it, which is all
  the module ever asks of a number besides whether it is zero or \<open>NaN\<close>.
\<close>

datatype json =
    JUndef
  | JNull
  | JBool bool
  | JNum jstring
  | JStr jstring
  | JArr "json list"
  | JObj "(jstring \<times> json) list"

type_synonym xmlparser = "jstring \<Rightarrow> error + json"

fun get :: "json \<Rightarrow> jstring \<Rightarrow> json" where
  \<comment> \<open>\<open>x?.[k]\<close>, for the keys the module reads (none is an array index or \<open>length\<close>)\<close>
  "get (JObj kvs) k = (case map_of kvs k of None \<Rightarrow> JUndef | Some v \<Rightarrow> v)"
| "get _ k = JUndef"

fun coalesce :: "json \<Rightarrow> json \<Rightarrow> json" where
  \<comment> \<open>\<open>a ?? b\<close>\<close>
  "coalesce JUndef b = b"
| "coalesce JNull b = b"
| "coalesce a b = a"

fun truthy :: "json \<Rightarrow> bool" where
  "truthy JUndef = False"
| "truthy JNull = False"
| "truthy (JBool b) = b"
| "truthy (JNum n) = (n \<noteq> (U ''0'') \<and> n \<noteq> (U ''NaN''))"
| "truthy (JStr s) = (s \<noteq> [])"
| "truthy _ = True"

fun isString :: "json \<Rightarrow> bool" where
  "isString (JStr s) = (s \<noteq> [])"
| "isString _ = False"

fun str_of :: "json \<Rightarrow> jstring" where
  \<comment> \<open>the text of a value that passed \<open>isString\<close>\<close>
  "str_of (JStr s) = s"
| "str_of _ = []"

fun asArray :: "json \<Rightarrow> json list" where
  \<comment> \<open>\<open>Array.isArray(x) ? x : [x]\<close>\<close>
  "asArray (JArr xs) = xs"
| "asArray x = [x]"

function asText :: "json \<Rightarrow> jstring option" where
  \<comment> \<open>a string is returned as it is, also the empty one (by \<open>String(x)\<close>, the last line)\<close>
  "asText (JStr s) = Some s"
| "asText (JArr []) = None"
| "asText (JArr (x # xs)) = asText x"
| "asText (JObj kvs) =
     asText (coalesce (get (JObj kvs) (U ''#text''))
            (coalesce (get (JObj kvs) (U ''text''))
            (coalesce (get (JObj kvs) (U ''#'')) (get (JObj kvs) (U ''_'')))))"
| "asText JUndef = None"
| "asText JNull = None"
| "asText (JBool b) = Some (if b then (U ''true'') else (U ''false''))"
| "asText (JNum n) = Some n"
  by pat_completeness auto
termination
proof (relation "measure size")
  fix kvs
  let ?o = "JObj kvs"
  have c: "size (coalesce a b) \<le> max (size a) (size b)" for a b
    by (cases a) auto
  have g: "size (get ?o k) < size ?o" for k
  proof -
    have "map_of kvs k = Some v \<Longrightarrow> size v < Suc (size_list (size_prod (\<lambda>_. 0) size) kvs)" for v
      by (induction kvs) (auto split: if_splits)
    then show ?thesis by (auto split: option.splits)
  qed
  have "size (coalesce (get ?o (U ''#text'')) (coalesce (get ?o (U ''text''))
          (coalesce (get ?o (U ''#'')) (get ?o (U ''_''))))) < size ?o"
    using c [of "get ?o (U ''#text'')" "coalesce (get ?o (U ''text'')) (coalesce (get ?o (U ''#'')) (get ?o (U ''_'')))"]
      c [of "get ?o (U ''text'')" "coalesce (get ?o (U ''#'')) (get ?o (U ''_''))"]
      c [of "get ?o (U ''#'')" "get ?o (U ''_'')"]
      g [of "(U ''#text'')"] g [of "(U ''text'')"] g [of "(U ''#'')"] g [of "(U ''_'')"]
    by linarith
  then show "(coalesce (get ?o (U ''#text'')) (coalesce (get ?o (U ''text''))
          (coalesce (get ?o (U ''#'')) (get ?o (U ''_'')))), ?o) \<in> measure size"
    by simp
qed auto

subsection \<open>\<open>safeJoin\<close>\<close>

definition safeJoin :: "jstring \<Rightarrow> jstring \<Rightarrow> jstring \<Rightarrow> error + jstring" where
  "safeJoin cwd baseAbs relPath =
     (let resolved = path_resolve cwd baseAbs relPath
      in if \<not> startsWith resolved baseAbs then Inl PathTraversal else Inr resolved)"

subsection \<open>The manifest and its parts\<close>

text \<open>
  The fields of the source's types carry a prefix here (\<open>ch_\<close> for a chapter,
  \<open>item_\<close> for an entry of \<open>manifestMap\<close>, \<open>bm_\<close> for \<open>BookManifest\<close>), so that
  the source's variable names stay free. \<open>manifestMap\<close> is a JavaScript \<open>Map\<close>: a
  list of pairs in insertion order, where setting a key that is present replaces its
  value in place.
\<close>

record ChapterEntry =
  ch_title :: jstring
  ch_href :: jstring

record manifest_item =
  item_href :: jstring
  item_properties :: json
  item_mediaType :: json

type_synonym manifest_map = "(jstring \<times> manifest_item) list"

record BookManifest =
  bm_title :: jstring
  bm_opfPath :: jstring
  bm_spine :: "jstring list"
  bm_chapters :: "ChapterEntry list"
  bm_coverHref :: "jstring option"
  bm_vertical :: bool

record platform =
  p_fs :: filesystem
  p_xml :: xmlparser
  p_cwd :: jstring

definition normalizeHref :: "jstring \<Rightarrow> jstring \<Rightarrow> jstring" where
  "normalizeHref opfDir href = slashes (if opfDir \<noteq> [] then opfDir @ (U ''/'') @ href else href)"

definition resolveHref :: "jstring \<Rightarrow> jstring \<Rightarrow> jstring" where
  \<comment> \<open>the closure of \<open>parseOpf\<close>\<close>
  "resolveHref opfDir href = slashes (if opfDir \<noteq> [] then opfDir @ (U ''/'') @ href else href)"

definition page_title :: "jstring \<Rightarrow> jstring option" where
  \<comment> \<open>\<open>m = html.match(/<title.../i); if (m) title = stripTags(m[1] || "")\<close>\<close>
  "page_title html =
     (case rx_exec rx_title html of None \<Rightarrow> None | Some (caps, _) \<Rightarrow> Some (stripTags (group 1 caps)))"

definition derived_title :: "jstring \<Rightarrow> jstring \<Rightarrow> nat \<Rightarrow> jstring" where
  \<comment> \<open>\<open>basename(clean || href).replace(/\.[^.]+$/, "") || `Chapter ${i + 1}`\<close>\<close>
  "derived_title clean href i =
     (let base = posix_basename (if clean \<noteq> [] then clean else href);
          t = strip_ext base
      in if t \<noteq> [] then t else (U ''Chapter '') @ digits (i + 1))"

definition or_derived :: "jstring option \<Rightarrow> jstring \<Rightarrow> jstring \<Rightarrow> nat \<Rightarrow> jstring" where
  \<comment> \<open>\<open>if (!title) title = ...\<close>: \<open>null\<close> and the empty string are both replaced\<close>
  "or_derived title clean href i =
     (case title of
        None \<Rightarrow> derived_title clean href i
      | Some t \<Rightarrow> if t = [] then derived_title clean href i else t)"

subsection \<open>\<open>extractChapters\<close>\<close>

lemma size_child: "c \<in> set (asArray (coalesce (get np k) (JArr []))) \<Longrightarrow> size c < size np"
proof (cases np)
  case (JObj kvs)
  assume c: "c \<in> set (asArray (coalesce (get np k) (JArr [])))"
  have m: "map_of kvs k = Some v \<Longrightarrow> size v < Suc (size_list (size_prod (\<lambda>_. 0) size) kvs)" for v
    by (induction kvs) (auto split: if_splits)
  have e: "x \<in> set xs \<Longrightarrow> size x < Suc (size_list size xs)" for x :: json and xs
    by (induction xs) auto
  show ?thesis
  proof (cases "map_of kvs k")
    case None
    with JObj c show ?thesis by simp
  next
    case (Some v)
    from c JObj Some have "size c \<le> size v"
      by (cases v) (auto dest: e)
    with m [OF Some] JObj show ?thesis by simp
  qed
qed simp_all

function walk :: "jstring \<Rightarrow> json \<Rightarrow> ChapterEntry list" where
  "walk opfDir np =
     (let label = get (get np (U ''navLabel'')) (U ''text'');
          src = get (get np (U ''content'')) (U ''@_src'');
          own = (if isString label \<and> isString src
                 then [\<lparr>ch_title = str_of label,
                        ch_href = slashes (if opfDir \<noteq> [] then opfDir @ (U ''/'') @ str_of src else str_of src)\<rparr>]
                 else []);
          children = coalesce (get np (U ''navPoint'')) (JArr []);
          childArr = asArray children
      in own @ concat (map (walk opfDir) (filter truthy childArr)))"
  by pat_completeness auto
termination
  by (relation "measure (\<lambda>(opfDir, np). size np)") (auto dest: size_child)

declare walk.simps [simp del]

definition has_property :: "json \<Rightarrow> jstring \<Rightarrow> error + bool" where
  \<comment> \<open>\<open>v.properties && v.properties.split(/\s+/).includes(name)\<close>; a value that is not a
      string has no \<open>split\<close>\<close>
  "has_property properties name =
     (if \<not> truthy properties then Inr False
      else (case properties of JStr s \<Rightarrow> Inr (name \<in> set (split_ws s)) | _ \<Rightarrow> Inl TypeError))"

fun find_property :: "jstring \<Rightarrow> manifest_item list \<Rightarrow> error + manifest_item option" where
  \<comment> \<open>\<open>for (const v of manifestMap.values()) if (...) { ...; break }\<close>\<close>
  "find_property name [] = Inr None"
| "find_property name (v # vs) =
     (case has_property (item_properties v) name of
        Inl e \<Rightarrow> Inl e
      | Inr True \<Rightarrow> Inr (Some v)
      | Inr False \<Rightarrow> find_property name vs)"

definition ncxChapters :: "platform \<Rightarrow> jstring \<Rightarrow> jstring \<Rightarrow> json \<Rightarrow> manifest_map \<Rightarrow> error + ChapterEntry list" where
  \<comment> \<open>the first block of \<open>extractChapters\<close> (EPUB 2: the spine's \<open>toc\<close> names the NCX)\<close>
  "ncxChapters P bookRootAbs opfDir opfJson manifestMap =
     (let tocId = get (get (get opfJson (U ''package'')) (U ''spine'')) (U ''@_toc'')
      in if \<not> isString tocId then Inr []
         else (case map_of manifestMap (str_of tocId) of
                 None \<Rightarrow> Inr []
               | Some ncx \<Rightarrow>
                   if item_href ncx = [] then Inr []
                   else (case safeJoin (p_cwd P) bookRootAbs
                                 (if opfDir \<noteq> [] then opfDir @ (U ''/'') @ item_href ncx else item_href ncx) of
                           Inl e \<Rightarrow> Inl e
                         | Inr ncxAbs \<Rightarrow>
                             if \<not> existsSync (p_fs P) ncxAbs then Inr []
                             else (case readText (p_fs P) ncxAbs of
                                     Inl _ \<Rightarrow> Inr []
                                   | Inr ncxXml \<Rightarrow>
                                      (case p_xml P ncxXml of
                                         Inl _ \<Rightarrow> Inr []
                                       | Inr ncxJson \<Rightarrow>
                                          (let navMap = get (get ncxJson (U ''ncx'')) (U ''navMap'');
                                               navPoints = coalesce (get navMap (U ''navPoint'')) (JArr []);
                                               arr = asArray navPoints
                                           in Inr (concat (map (walk opfDir) (filter truthy arr)))))))))"

definition anchor_chapters :: "jstring \<Rightarrow> jstring \<Rightarrow> ChapterEntry list" where
  \<comment> \<open>the \<open>while ((m = re.exec(navBlock)))\<close> loop\<close>
  "anchor_chapters opfDir navBlock =
     concat (map (\<lambda>m. let href = group 1 m; title = stripTags (group 2 m)
                       in if href \<noteq> [] \<and> title \<noteq> []
                          then [\<lparr>ch_title = title,
                                 ch_href = slashes (if opfDir \<noteq> [] then opfDir @ (U ''/'') @ href else href)\<rparr>]
                          else [])
                 (rx_exec_all rx_anchor navBlock))"

definition navChapters :: "platform \<Rightarrow> jstring \<Rightarrow> jstring \<Rightarrow> manifest_map \<Rightarrow> error + ChapterEntry list" where
  \<comment> \<open>the second block (EPUB 3: the manifest item with the property \<open>nav\<close>)\<close>
  "navChapters P bookRootAbs opfDir manifestMap =
     (case find_property (U ''nav'') (map snd manifestMap) of
        Inl e \<Rightarrow> Inl e
      | Inr None \<Rightarrow> Inr []
      | Inr (Some v) \<Rightarrow>
          (let navHref = item_href v
           in if navHref = [] then Inr []
              else (case safeJoin (p_cwd P) bookRootAbs
                            (if opfDir \<noteq> [] then opfDir @ (U ''/'') @ navHref else navHref) of
                      Inl e \<Rightarrow> Inl e
                    | Inr navAbs \<Rightarrow>
                        if \<not> existsSync (p_fs P) navAbs then Inr []
                        else (case readText (p_fs P) navAbs of
                                Inl _ \<Rightarrow> Inr []
                              | Inr navHtml \<Rightarrow>
                                 (let navBlock = (case rx_exec rx_nav navHtml of
                                                    None \<Rightarrow> navHtml
                                                  | Some (caps, _) \<Rightarrow> group 1 caps)
                                  in Inr (anchor_chapters opfDir navBlock))))))"

definition scraped_title :: "platform \<Rightarrow> jstring \<Rightarrow> jstring \<Rightarrow> jstring option" where
  \<comment> \<open>the \<open>try\<close> block of the last loop: any failure leaves \<open>title\<close> at \<open>null\<close>\<close>
  "scraped_title P bookRootAbs cleanHref =
     (case safeJoin (p_cwd P) bookRootAbs cleanHref of
        Inl _ \<Rightarrow> None
      | Inr absPath \<Rightarrow> (case readText (p_fs P) absPath of Inl _ \<Rightarrow> None | Inr html \<Rightarrow> page_title html))"

fun spineChapters :: "platform \<Rightarrow> jstring \<Rightarrow> nat \<Rightarrow> jstring list \<Rightarrow> ChapterEntry list" where
  \<comment> \<open>the last loop, from index \<open>i\<close> on\<close>
  "spineChapters P bookRootAbs i [] = []"
| "spineChapters P bookRootAbs i (href # rest) =
     (let cleanHref = strip_fragment href;
          title = scraped_title P bookRootAbs cleanHref
      in \<lparr>ch_title = or_derived title cleanHref href i, ch_href = href\<rparr>
         # spineChapters P bookRootAbs (Suc i) rest)"

definition extractChapters ::
  "platform \<Rightarrow> jstring \<Rightarrow> jstring \<Rightarrow> json \<Rightarrow> manifest_map \<Rightarrow> jstring list \<Rightarrow> error + ChapterEntry list" where
  "extractChapters P bookRootAbs opfDir opfJson manifestMap spine =
     (case ncxChapters P bookRootAbs opfDir opfJson manifestMap of
        Inl e \<Rightarrow> Inl e
      | Inr chapters \<Rightarrow>
          if chapters \<noteq> [] then Inr chapters
          else (case navChapters P bookRootAbs opfDir manifestMap of
                  Inl e \<Rightarrow> Inl e
                | Inr chapters \<Rightarrow>
                    if chapters \<noteq> [] then Inr chapters
                    else Inr (spineChapters P bookRootAbs 0 spine)))"

subsection \<open>\<open>mergeChaptersWithSpine\<close>\<close>

definition add_title :: "(jstring \<times> jstring) list \<Rightarrow> ChapterEntry \<Rightarrow> (jstring \<times> jstring) list" where
  "add_title titleMap c =
     (let base = strip_fragment (ch_href c)
      in if map_of titleMap base = None \<and> ch_title c \<noteq> []
         then AList.update base (ch_title c) titleMap else titleMap)"

definition own_title :: "platform \<Rightarrow> jstring \<Rightarrow> jstring \<Rightarrow> jstring option" where
  \<comment> \<open>the \<open>try\<close> block of the merge loop; a file that does not exist reads as \<open>""\<close>\<close>
  "own_title P bookRootAbs base =
     (case safeJoin (p_cwd P) bookRootAbs base of
        Inl _ \<Rightarrow> None
      | Inr absPath \<Rightarrow>
          (case (if existsSync (p_fs P) absPath then readText (p_fs P) absPath else Inr []) of
             Inl _ \<Rightarrow> None
           | Inr html \<Rightarrow> page_title html))"

fun merge_from :: "platform \<Rightarrow> jstring \<Rightarrow> (jstring \<times> jstring) list \<Rightarrow> nat \<Rightarrow> jstring list \<Rightarrow> ChapterEntry list" where
  "merge_from P bookRootAbs titleMap i [] = []"
| "merge_from P bookRootAbs titleMap i (href # rest) =
     (let base = strip_fragment href;
          title = (case map_of titleMap base of None \<Rightarrow> None | Some t \<Rightarrow> if t = [] then None else Some t);
          title = (if title = None then own_title P bookRootAbs base else title)
      in \<lparr>ch_title = or_derived title base href i, ch_href = href\<rparr>
         # merge_from P bookRootAbs titleMap (Suc i) rest)"

definition mergeChaptersWithSpine :: "platform \<Rightarrow> jstring \<Rightarrow> jstring list \<Rightarrow> ChapterEntry list \<Rightarrow> ChapterEntry list" where
  "mergeChaptersWithSpine P bookRootAbs spine chapters =
     merge_from P bookRootAbs (foldl add_title [] chapters) 0 spine"

subsection \<open>\<open>detectVertical\<close>\<close>

definition caught :: "error + bool \<Rightarrow> bool" where
  \<comment> \<open>\<open>try { ...; return true } catch { }\<close>: a block that throws returns nothing\<close>
  "caught r = (case r of Inl _ \<Rightarrow> False | Inr b \<Rightarrow> b)"

definition first_doc_vertical :: "platform \<Rightarrow> jstring \<Rightarrow> jstring \<Rightarrow> error + bool" where
  \<comment> \<open>the body of the first \<open>try\<close>: whether it returns \<open>true\<close>\<close>
  "first_doc_vertical P bookRootAbs first =
     (case safeJoin (p_cwd P) bookRootAbs (strip_fragment first) of
        Inl e \<Rightarrow> Inl e
      | Inr absPath \<Rightarrow>
          (case readText (p_fs P) absPath of
             Inl e \<Rightarrow> Inl e
           | Inr html \<Rightarrow>
               Inr (rx_test rx_writing_mode html \<or> rx_test rx_vertical html \<or> rx_test rx_rtl html)))"

definition opf_rtl :: "platform \<Rightarrow> jstring \<Rightarrow> jstring \<Rightarrow> error + bool" where
  \<comment> \<open>the body of the second \<open>try\<close>\<close>
  "opf_rtl P bookRootAbs opfRelPath =
     (case safeJoin (p_cwd P) bookRootAbs opfRelPath of
        Inl e \<Rightarrow> Inl e
      | Inr opfAbs \<Rightarrow>
          if existsSync (p_fs P) opfAbs
          then (case readText (p_fs P) opfAbs of
                  Inl e \<Rightarrow> Inl e
                | Inr opfXml \<Rightarrow> Inr (rx_test rx_rtl opfXml))
          else Inr False)"

definition detectVertical :: "platform \<Rightarrow> jstring \<Rightarrow> jstring list \<Rightarrow> jstring \<Rightarrow> error + bool" where
  "detectVertical P bookRootAbs spine opfRelPath =
     (case spine of
        [] \<Rightarrow> Inr False
      | first # _ \<Rightarrow>
          if first = [] then Inr False
          else if caught (first_doc_vertical P bookRootAbs first) then Inr True
          else if caught (opf_rtl P bookRootAbs opfRelPath) then Inr True
          else Inr False)"

subsection \<open>\<open>extractCoverHref\<close>\<close>

fun findCoverIdFromMetadata_loop :: "json list \<Rightarrow> jstring option" where
  "findCoverIdFromMetadata_loop [] = None"
| "findCoverIdFromMetadata_loop (m # ms) =
     (if get m (U ''@_name'') = JStr (U ''cover'') \<and> isString (get m (U ''@_content''))
      then Some (str_of (get m (U ''@_content'')))
      else findCoverIdFromMetadata_loop ms)"

definition findCoverIdFromMetadata :: "json \<Rightarrow> jstring option" where
  "findCoverIdFromMetadata metadata =
     findCoverIdFromMetadata_loop (asArray (coalesce (get metadata (U ''meta'')) (JArr [])))"

definition first_image :: "jstring \<Rightarrow> jstring option" where
  \<comment> \<open>\<open>m = html.match(/<img.../i); if (!m) m = html.match(/<image.../i)\<close>, then
      \<open>m && isString(m[1])\<close>\<close>
  "first_image html =
     (case (case rx_exec rx_img html of None \<Rightarrow> rx_exec rx_image html | Some m \<Rightarrow> Some m) of
        None \<Rightarrow> None
      | Some (caps, _) \<Rightarrow> if group 1 caps \<noteq> [] then Some (group 1 caps) else None)"

definition first_doc_image :: "platform \<Rightarrow> jstring \<Rightarrow> jstring \<Rightarrow> error + jstring option" where
  \<comment> \<open>the body of the \<open>try\<close> of the last tier\<close>
  "first_doc_image P bookRootAbs first =
     (case safeJoin (p_cwd P) bookRootAbs (strip_fragment first) of
        Inl e \<Rightarrow> Inl e
      | Inr absPath \<Rightarrow>
          (case readText (p_fs P) absPath of
             Inl e \<Rightarrow> Inl e
           | Inr html \<Rightarrow> Inr (first_image html)))"

definition extractCoverHref ::
  "platform \<Rightarrow> jstring \<Rightarrow> jstring \<Rightarrow> json \<Rightarrow> manifest_map \<Rightarrow> jstring list \<Rightarrow> error + jstring option" where
  "extractCoverHref P bookRootAbs opfDir opfJson manifestMap spine =
     (let metadata = get (get opfJson (U ''package'')) (U ''metadata'');
          coverId = findCoverIdFromMetadata metadata;
          item = (case coverId of None \<Rightarrow> None | Some i \<Rightarrow> map_of manifestMap i)
      in case (case item of None \<Rightarrow> None | Some it \<Rightarrow> if item_href it \<noteq> [] then Some it else None) of
           Some it \<Rightarrow> Inr (Some (normalizeHref opfDir (item_href it)))
         | None \<Rightarrow>
            (case find_property (U ''cover-image'') (map snd manifestMap) of
               Inl e \<Rightarrow> Inl e
             | Inr (Some v) \<Rightarrow> Inr (Some (normalizeHref opfDir (item_href v)))
             | Inr None \<Rightarrow>
                (case spine of
                   [] \<Rightarrow> Inr None
                 | first # _ \<Rightarrow>
                    (case first_doc_image P bookRootAbs first of
                       Inr (Some src) \<Rightarrow> Inr (Some (normalizeHref opfDir src))
                     | _ \<Rightarrow> Inr None))))"

subsection \<open>\<open>parseOpf\<close>\<close>

definition opf_title :: "json \<Rightarrow> jstring" where
  "opf_title json =
     (let metadata = get (get json (U ''package'')) (U ''metadata'');
          titleRaw = coalesce (get metadata (U ''dc:title'')) (coalesce (get metadata (U ''title'')) (JStr (U ''Untitled'')))
      in case asText titleRaw of None \<Rightarrow> (U ''Untitled'') | Some t \<Rightarrow> t)"

definition add_item :: "manifest_map \<Rightarrow> json \<Rightarrow> manifest_map" where
  \<comment> \<open>one round of \<open>for (const it of itemsArr)\<close>\<close>
  "add_item manifestMap it =
     (let id = get it (U ''@_id'');
          href = get it (U ''@_href'');
          properties = get it (U ''@_properties'');
          mediaType = get it (U ''@_media-type'')
      in if isString id \<and> isString href
         then AList.update (str_of id)
                \<lparr>item_href = str_of href, item_properties = properties, item_mediaType = mediaType\<rparr>
                manifestMap
         else manifestMap)"

definition opf_manifestMap :: "json \<Rightarrow> manifest_map" where
  "opf_manifestMap json =
     (let manifestItems = coalesce (get (get (get json (U ''package'')) (U ''manifest'')) (U ''item'')) (JArr []);
          itemsArr = asArray manifestItems
      in foldl add_item [] itemsArr)"

definition opf_dir :: "jstring \<Rightarrow> jstring" where
  "opf_dir opfRelPath =
     (let opfDirRel = posix_dirname opfRelPath in if opfDirRel = (U ''.'') then [] else opfDirRel)"

definition item_href_of :: "manifest_map \<Rightarrow> json \<Rightarrow> json" where
  \<comment> \<open>\<open>manifestMap.get(idref)?.href\<close>\<close>
  "item_href_of manifestMap idref =
     (case map_of manifestMap (str_of idref) of None \<Rightarrow> JUndef | Some it \<Rightarrow> JStr (item_href it))"

definition opf_spine :: "json \<Rightarrow> jstring \<Rightarrow> jstring list" where
  "opf_spine json opfRelPath =
     (let spineItems = coalesce (get (get (get json (U ''package'')) (U ''spine'')) (U ''itemref'')) (JArr []);
          spineArr = asArray spineItems;
          manifestMap = opf_manifestMap json
      in map (\<lambda>href. resolveHref (opf_dir opfRelPath) (str_of href))
           (filter isString
             (map (item_href_of manifestMap)
               (filter isString
                 (map (\<lambda>it. get it (U ''@_idref'')) spineArr)))))"

definition parseOpf_json :: "platform \<Rightarrow> jstring \<Rightarrow> jstring \<Rightarrow> json \<Rightarrow> error + BookManifest" where
  \<comment> \<open>\<open>parseOpf\<close> from the parsed package document on\<close>
  "parseOpf_json P bookRootAbs opfRelPath json =
     (let title = opf_title json;
          manifestMap = opf_manifestMap json;
          opfDir = opf_dir opfRelPath;
          spine = opf_spine json opfRelPath
      in if spine = [] then Inl EmptySpine
         else (case extractChapters P bookRootAbs opfDir json manifestMap spine of
                 Inl e \<Rightarrow> Inl e
               | Inr chapters0 \<Rightarrow>
                  (let chapters = (if length chapters0 < length spine
                                   then mergeChaptersWithSpine P bookRootAbs spine chapters0
                                   else chapters0)
                   in case extractCoverHref P bookRootAbs opfDir json manifestMap spine of
                        Inl e \<Rightarrow> Inl e
                      | Inr coverHref \<Rightarrow>
                         (case detectVertical P bookRootAbs spine opfRelPath of
                            Inl e \<Rightarrow> Inl e
                          | Inr vertical \<Rightarrow>
                              Inr \<lparr>bm_title = title, bm_opfPath = opfRelPath, bm_spine = spine,
                                   bm_chapters = chapters, bm_coverHref = coverHref,
                                   bm_vertical = vertical\<rparr>))))"

definition parseOpf :: "platform \<Rightarrow> jstring \<Rightarrow> jstring \<Rightarrow> error + BookManifest" where
  "parseOpf P bookRootAbs opfRelPath =
     (case safeJoin (p_cwd P) bookRootAbs opfRelPath of
        Inl e \<Rightarrow> Inl e
      | Inr opfAbs \<Rightarrow>
          (case readText (p_fs P) opfAbs of
             Inl e \<Rightarrow> Inl e
           | Inr opfXml \<Rightarrow>
               (case p_xml P opfXml of
                  Inl e \<Rightarrow> Inl e
                | Inr json \<Rightarrow> parseOpf_json P bookRootAbs opfRelPath json)))"

section \<open>Notions the properties are stated with\<close>

text \<open>
  What follows says with plain list functions what the properties below mean. None of
  these definitions uses a regular expression. Of the module they use \<open>safeJoin\<close>, to
  name the file a document is read from, and \<open>slashes\<close> in \<open>package_href\<close>; of the
  platform the character classes, the folding of letter case, the base name of a path
  and the decimal numeral of a number.
\<close>

subsection \<open>Searching a text\<close>







definition first_capture :: "(jstring list \<times> jstring) list \<Rightarrow> jstring option" where
  \<comment> \<open>the first capture group of the first way an expression matches, if it matches\<close>
  "first_capture ms = (case ms of [] \<Rightarrow> None | (caps, _) # _ \<Rightarrow> Some (group 1 caps))"

subsection \<open>The page title of a document\<close>










fun decimal_value :: "jstring \<Rightarrow> nat" where
  "decimal_value s = foldl (\<lambda>a c. 10 * a + (c - 48)) 0 s"

subsection \<open>Image references of a document\<close>







subsection \<open>The package document\<close>

definition spec_children :: "json \<Rightarrow> jstring \<Rightarrow> json list" where
  \<comment> \<open>the child elements of that name: none, the one, or the members of the array\<close>
  "spec_children x k =
     (case get x k of JUndef \<Rightarrow> [] | JNull \<Rightarrow> [] | JArr xs \<Rightarrow> xs | v \<Rightarrow> [v])"

definition declared_items :: "json \<Rightarrow> json list" where
  "declared_items json = spec_children (get (get json (U ''package'')) (U ''manifest'')) (U ''item'')"

definition declared_itemrefs :: "json \<Rightarrow> json list" where
  "declared_itemrefs json = spec_children (get (get json (U ''package'')) (U ''spine'')) (U ''itemref'')"

definition spec_item_href :: "json list \<Rightarrow> jstring \<Rightarrow> jstring option" where
  \<comment> \<open>the manifest table: the href of the last declared item with this id; an item
      counts when its id and its href are non-empty strings\<close>
  "spec_item_href items i =
     (case List.find (\<lambda>it. get it (U ''@_id'') = JStr i \<and> isString (get it (U ''@_href''))) (rev items) of
        None \<Rightarrow> None
      | Some it \<Rightarrow> Some (str_of (get it (U ''@_href''))))"

definition spec_separators :: "jstring \<Rightarrow> jstring" where
  \<comment> \<open>path separators normalised: the parts between backslashes, joined with slashes\<close>
  "spec_separators s = join_with (U ''/'') (split_on 0x5C s)"

definition under_directory :: "jstring \<Rightarrow> jstring \<Rightarrow> jstring" where
  \<comment> \<open>an href resolved: taken relative to a directory of the book (the empty directory
      is the book's root), path separators normalised\<close>
  "under_directory dir href = spec_separators (if dir = [] then href else dir @ U ''/'' @ href)"

definition spec_containing_dir :: "jstring \<Rightarrow> jstring" where
  \<comment> \<open>the directory of a file given by a relative path: what stands before the last
      slash; nothing when there is no slash, or when that is \<open>.\<close>\<close>
  "spec_containing_dir p =
     (if C (CHR ''/'') \<in> set p
      then (let d = rev (tl (dropWhile (\<lambda>c. c \<noteq> C (CHR ''/'')) (rev p)))
            in if d = U ''.'' then [] else d)
      else [])"

definition relative_file_path :: "jstring \<Rightarrow> bool" where
  \<comment> \<open>a path that does not start and does not end with a slash\<close>
  "relative_file_path p = (\<not> prefix (U ''/'') p \<and> \<not> suffix (U ''/'') p)"

fun spec_spine :: "json list \<Rightarrow> jstring \<Rightarrow> json list \<Rightarrow> jstring list" where
  \<comment> \<open>The spine as the specification words it: each declared item reference is looked up
      by id in the manifest table; a reference that does not resolve is skipped; the
      href found is resolved relative to the directory of the package document.\<close>
  "spec_spine items dir [] = []"
| "spec_spine items dir (itemref # rest) =
     (case get itemref (U ''@_idref'') of
        JStr idref \<Rightarrow>
          (case (if idref = [] then None else spec_item_href items idref) of
             None \<Rightarrow> spec_spine items dir rest
           | Some href \<Rightarrow>
               under_directory dir href # spec_spine items dir rest)
      | _ \<Rightarrow> spec_spine items dir rest)"

definition package_href :: "jstring \<Rightarrow> jstring \<Rightarrow> bool" where
  \<comment> \<open>a non-empty reference put under the directory of the package document, backslashes
      replaced\<close>
  "package_href opfDir h = (\<exists>x. x \<noteq> [] \<and> h = slashes (if opfDir \<noteq> [] then opfDir @ (U ''/'') @ x else x))"

subsection \<open>The cover named by the package document\<close>






subsection \<open>Paths\<close>

definition abs_path :: "jstring list \<Rightarrow> jstring" where
  \<comment> \<open>the absolute path with the given segments\<close>
  "abs_path comps = U ''/'' @ join_with (U ''/'') comps"

definition segment :: "jstring \<Rightarrow> bool" where
  \<comment> \<open>a directory or file name: not empty, not \<open>.\<close> or \<open>..\<close>, without a slash\<close>
  "segment c = (c \<noteq> [] \<and> c \<noteq> U ''.'' \<and> c \<noteq> U ''..'' \<and> C (CHR ''/'') \<notin> set c)"

subsection \<open>Example packages\<close>

definition files_of :: "(jstring \<times> jstring) list \<Rightarrow> filesystem" where
  \<comment> \<open>a file system holding the listed files and nothing else\<close>
  "files_of fl p = map_option File (map_of fl p)"

definition parser_of :: "(jstring \<times> json) list \<Rightarrow> xmlparser" where
  \<comment> \<open>a parser that knows the listed documents\<close>
  "parser_of docs s = (case map_of docs s of None \<Rightarrow> Inl XmlError | Some j \<Rightarrow> Inr j)"

definition plain_opf_text :: jstring where
  "plain_opf_text = (U ''<spine page-progression-direction='') @ [0x22] @ (U ''rtl'') @ [0x22] @ (U ''>'')"

definition plain_opf :: json where
  \<comment> \<open>two documents, one reference that does not resolve, no table of contents\<close>
  "plain_opf = JObj [((U ''package''), JObj [
     ((U ''metadata''), JObj [((U ''dc:title''), JStr (U ''Book''))]),
     ((U ''manifest''), JObj [((U ''item''), JArr [
        JObj [((U ''@_id''), JStr (U ''c1'')), ((U ''@_href''), JStr (U ''c1.xhtml''))],
        JObj [((U ''@_id''), JStr (U ''c2'')), ((U ''@_href''), JStr (U ''c2.xhtml''))]])]),
     ((U ''spine''), JObj [((U ''@_page-progression-direction''), JStr (U ''rtl'')),
        ((U ''itemref''), JArr [JObj [((U ''@_idref''), JStr (U ''c1''))], JObj [((U ''@_idref''), JStr (U ''zz''))],
                           JObj [((U ''@_idref''), JStr (U ''c2''))]])])])]"

definition plain_pkg :: platform where
  "plain_pkg =
     \<lparr>p_fs = files_of [((U ''/b/OEBPS/content.opf''), plain_opf_text),
                        ((U ''/b/OEBPS/c1.xhtml''), (U ''<title>One</title>''))],
      p_xml = parser_of [(plain_opf_text, plain_opf)],
      p_cwd = (U ''/'')\<rparr>"

definition toc_ncx :: json where
  "toc_ncx = JObj [((U ''ncx''), JObj [((U ''navMap''), JObj [((U ''navPoint''), JArr [
     JObj [((U ''navLabel''), JObj [((U ''text''), JStr (U ''One''))]), ((U ''content''), JObj [((U ''@_src''), JStr (U ''c1.xhtml''))])],
     JObj [((U ''navLabel''), JObj [((U ''text''), JStr (U ''Two''))]), ((U ''content''), JObj [((U ''@_src''), JStr (U ''c1.xhtml#s2''))])]])])])]"

definition toc_opf :: json where
  \<comment> \<open>one document, an NCX with two entries and a navigation document\<close>
  "toc_opf = JObj [((U ''package''), JObj [
     ((U ''manifest''), JObj [((U ''item''), JArr [
        JObj [((U ''@_id''), JStr (U ''c1'')), ((U ''@_href''), JStr (U ''c1.xhtml''))],
        JObj [((U ''@_id''), JStr (U ''ncx'')), ((U ''@_href''), JStr (U ''toc.ncx''))],
        JObj [((U ''@_id''), JStr (U ''nav'')), ((U ''@_href''), JStr (U ''nav.xhtml'')), ((U ''@_properties''), JStr (U ''nav''))]])]),
     ((U ''spine''), JObj [((U ''@_toc''), JStr (U ''ncx'')), ((U ''itemref''), JObj [((U ''@_idref''), JStr (U ''c1''))])])])]"

definition toc_pkg :: platform where
  "toc_pkg =
     \<lparr>p_fs = files_of [((U ''/b/content.opf''), (U ''O'')), ((U ''/b/toc.ncx''), (U ''N'')),
                        ((U ''/b/nav.xhtml''), (U ''<a href='') @ [0x22] @ (U ''c9.xhtml'') @ [0x22] @ (U ''>Nine</a>''))],
      p_xml = parser_of [((U ''O''), toc_opf), ((U ''N''), toc_ncx)],
      p_cwd = (U ''/'')\<rparr>"

definition escape_opf :: json where
  \<comment> \<open>a package whose hrefs point outside the package\<close>
  "escape_opf = JObj [((U ''package''), JObj [
     ((U ''metadata''), JObj [((U ''meta''), JObj [((U ''@_name''), JStr (U ''cover'')), ((U ''@_content''), JStr (U ''cov''))])]),
     ((U ''manifest''), JObj [((U ''item''), JArr [
        JObj [((U ''@_id''), JStr (U ''c1'')), ((U ''@_href''), JStr (U ''../../etc/passwd''))],
        JObj [((U ''@_id''), JStr (U ''cov'')), ((U ''@_href''), JStr (U ''../x.png''))]])]),
     ((U ''spine''), JObj [((U ''itemref''), JObj [((U ''@_idref''), JStr (U ''c1''))])])])]"

definition escape_pkg :: platform where
  "escape_pkg =
     \<lparr>p_fs = files_of [((U ''/b/content.opf''), (U ''O''))],
      p_xml = parser_of [((U ''O''), escape_opf)],
      p_cwd = (U ''/'')\<rparr>"






definition plain_manifest :: BookManifest where
  "plain_manifest =
     \<lparr>bm_title = (U ''Book''), bm_opfPath = (U ''OEBPS/content.opf''),
      bm_spine = [(U ''OEBPS/c1.xhtml''), (U ''OEBPS/c2.xhtml'')],
      bm_chapters = [\<lparr>ch_title = (U ''One''), ch_href = (U ''OEBPS/c1.xhtml'')\<rparr>,
                     \<lparr>ch_title = (U ''c2''), ch_href = (U ''OEBPS/c2.xhtml'')\<rparr>],
      bm_coverHref = None, bm_vertical = True\<rparr>"

definition toc_manifest :: BookManifest where
  "toc_manifest =
     \<lparr>bm_title = (U ''Untitled''), bm_opfPath = (U ''content.opf''),
      bm_spine = [(U ''c1.xhtml'')],
      bm_chapters = [\<lparr>ch_title = (U ''One''), ch_href = (U ''c1.xhtml'')\<rparr>,
                     \<lparr>ch_title = (U ''Two''), ch_href = (U ''c1.xhtml#s2'')\<rparr>],
      bm_coverHref = None, bm_vertical = False\<rparr>"

definition escape_manifest :: BookManifest where
  "escape_manifest =
     \<lparr>bm_title = (U ''Untitled''), bm_opfPath = (U ''content.opf''),
      bm_spine = [(U ''../../etc/passwd'')],
      bm_chapters = [\<lparr>ch_title = (U ''passwd''), ch_href = (U ''../../etc/passwd'')\<rparr>],
      bm_coverHref = Some (U ''../x.png''), bm_vertical = False\<rparr>"

definition empty_pkg :: platform where
  \<comment> \<open>a package document without a spine\<close>
  "empty_pkg = \<lparr>p_fs = files_of [((U ''/b/content.opf''), (U ''E''))], p_xml = parser_of [((U ''E''), JObj [])], p_cwd = (U ''/'')\<rparr>"



definition deep_opf :: json where
  \<comment> \<open>a package document two directories deep: hrefs with backslashes, an id declared
      twice, an item without href, a reference that does not resolve, one to the item
      without href and one without \<open>idref\<close>\<close>
  "deep_opf = JObj [(U ''package'', JObj [
     (U ''manifest'', JObj [(U ''item'', JArr [
        JObj [(U ''@_id'', JStr (U ''c1'')), (U ''@_href'', JStr (U ''a'' @ [0x5C] @ U ''c1.xhtml''))],
        JObj [(U ''@_id'', JStr (U ''c2'')), (U ''@_href'', JStr (U ''c2.xhtml''))],
        JObj [(U ''@_id'', JStr (U ''c3''))],
        JObj [(U ''@_id'', JStr (U ''c1'')), (U ''@_href'', JStr (U ''b'' @ [0x5C] @ U ''c1.xhtml''))]])]),
     (U ''spine'', JObj [(U ''itemref'', JArr [
        JObj [(U ''@_idref'', JStr (U ''c1''))], JObj [(U ''@_idref'', JStr (U ''zz''))],
        JObj [(U ''@_idref'', JStr (U ''c3''))], JObj [],
        JObj [(U ''@_idref'', JStr (U ''c2''))]])])])]"

definition deep_pkg :: platform where
  "deep_pkg =
     \<lparr>p_fs = files_of [(U ''/b/OEBPS/pkg/content.opf'', U ''D'')],
      p_xml = parser_of [(U ''D'', deep_opf)],
      p_cwd = U ''/''\<rparr>"

definition deep_manifest :: BookManifest where
  "deep_manifest =
     \<lparr>bm_title = U ''Untitled'', bm_opfPath = U ''OEBPS/pkg/content.opf'',
      bm_spine = [U ''OEBPS/pkg/b/c1.xhtml'', U ''OEBPS/pkg/c2.xhtml''],
      bm_chapters = [\<lparr>ch_title = U ''c1'', ch_href = U ''OEBPS/pkg/b/c1.xhtml''\<rparr>,
                     \<lparr>ch_title = U ''c2'', ch_href = U ''OEBPS/pkg/c2.xhtml''\<rparr>],
      bm_coverHref = None, bm_vertical = False\<rparr>"





section \<open>Properties\<close>

subsection \<open>The repeated expressions consume input\<close>

text \<open>
  The loops over all matches (\<open>rx_exec_all\<close>, \<open>rx_replace_all\<close>) go on after a match
  only if it consumed input. The three expressions they are used with start with a
  literal or need at least one character, so every match of theirs is non-empty and the
  loops run as in JavaScript.
\<close>

lemma lit_rest_length: "lit_rest l s = Some r \<Longrightarrow> length r + length l = length s"
  by (induction l s rule: lit_rest.induct) (auto split: if_splits)

lemma rx_match_length: "(c, r) \<in> set (rx_match e s) \<Longrightarrow> length r \<le> length s"
proof (induction e arbitrary: c r s)
  case (Lit l)
  then show ?case by (auto split: option.splits dest: lit_rest_length [OF sym])
next
  case (Cls p)
  then show ?case by (auto split: list.splits if_splits)
next
  case (Seq a b)
  from Seq.prems obtain c1 r1 c2 where "(c1, r1) \<in> set (rx_match a s)" "(c2, r) \<in> set (rx_match b r1)"
    by auto
  with Seq.IH show ?case by fastforce
next
  case (Grp a)
  then show ?case by auto
next
  case WordEnd
  then show ?case by (auto split: list.splits if_splits)
qed (auto split: if_splits)

lemma rx_match_Lit_Seq:
  assumes "(c, r) \<in> set (rx_match (Seq (Lit (x # l)) e) s)"
  shows "length r < length s"
proof -
  from assms obtain r1 c2 where "lit_rest (x # l) s = Some r1" "(c2, r) \<in> set (rx_match e r1)"
    by (cases "lit_rest (x # l) s") auto
  with lit_rest_length [of "x # l" s r1] rx_match_length [of c2 r e r1] show ?thesis
    by simp
qed

lemma rx_exec_shorter:
  assumes "\<And>c r t. (c, r) \<in> set (rx_match e t) \<Longrightarrow> length r < length t"
    and "rx_exec e s = Some (c, r)"
  shows "length r < length s"
  using assms(2)
proof (induction s)
  case Nil
  then show ?case
    using assms(1) [of c r "[]"] by (auto split: list.splits)
next
  case (Cons x xs)
  show ?case
  proof (cases "rx_match e (x # xs)")
    case Nil
    with Cons show ?thesis by simp
  next
    case (Cons m ms)
    with Cons.prems have "(c, r) \<in> set (rx_match e (x # xs))" by simp
    then show ?thesis by (rule assms(1))
  qed
qed

lemma anchor_match_consumes: "rx_exec rx_anchor s = Some (c, r) \<Longrightarrow> length r < length s"
proof (rule rx_exec_shorter)
  show "length r < length t" if "(c, r) \<in> set (rx_match rx_anchor t)" for c r t
    using that unfolding rx_anchor_def rx_seq.simps U_def list.map by (rule rx_match_Lit_Seq)
qed

lemma tag_match_consumes: "(c, r) \<in> set (rx_match rx_tag s) \<Longrightarrow> length r < length s"
  unfolding rx_tag_def rx_seq.simps U_def list.map by (rule rx_match_Lit_Seq)

lemma space_match_consumes: "(c, r) \<in> set (rx_match (Plus js_ws) s) \<Longrightarrow> length r < length s"
  using length_takeWhile_le [of js_ws s] by auto

subsection \<open>How the expressions match\<close>

text \<open>
  The lemmas of this part unfold the matcher for the shapes the module's expressions
  have: a literal followed by the rest, a repetition followed by the rest, and the first
  capture of the first match.
\<close>

lemma lower_gt [simp]: "lower x = lower (C (CHR ''>'')) \<longleftrightarrow> x = C (CHR ''>'')"
  by (auto simp: lower_def C_def)











lemma match_Seq_Plus_Nil: "rx_match (Seq (Plus p) K) [] = []"
  by simp



lemma first_capture_Nil_iff: "first_capture ms = None \<longleftrightarrow> ms = []"
  by (auto simp: first_capture_def split: list.splits)







lemma join_with_Cons: "join_with d (w # ws) = (if ws = [] then w else w @ d @ join_with d ws)"
  by (cases ws) simp_all

subsection \<open>The merge step\<close>

lemma map_of_add_title:
  "map_of (add_title tm c) b =
     (case map_of tm b of
        Some t \<Rightarrow> Some t
      | None \<Rightarrow> if strip_fragment (ch_href c) = b \<and> ch_title c \<noteq> [] then Some (ch_title c) else None)"
  by (auto simp: add_title_def Let_def update_conv' split: option.splits)

lemma map_of_titleMap:
  "map_of (foldl add_title tm cs) b =
     (case map_of tm b of
        Some t \<Rightarrow> Some t
      | None \<Rightarrow> map_option ch_title (find (\<lambda>c. strip_fragment (ch_href c) = b \<and> ch_title c \<noteq> []) cs))"
proof (induction cs arbitrary: tm)
  case Nil
  then show ?case by (simp split: option.splits)
next
  case (Cons c cs)
  show ?case
    by (simp add: Cons.IH map_of_add_title split: option.splits)
qed

lemma merge_from_hrefs: "map ch_href (merge_from P r tm i sp) = sp"
  by (induction sp arbitrary: i) (simp_all add: Let_def)

lemma merge_from_nth:
  "k < length sp \<Longrightarrow>
   merge_from P r tm i sp ! k =
     (let href = sp ! k; base = strip_fragment href;
          title = (case map_of tm base of None \<Rightarrow> None | Some t \<Rightarrow> if t = [] then None else Some t);
          title = (if title = None then own_title P r base else title)
      in \<lparr>ch_title = or_derived title base href (i + k), ch_href = href\<rparr>)"
proof (induction sp arbitrary: i k)
  case Nil
  then show ?case by simp
next
  case (Cons h sp)
  show ?case
  proof (cases k)
    case 0
    then show ?thesis by (simp add: Let_def)
  next
    case (Suc j)
    with Cons.prems have "j < length sp" by simp
    from Cons.IH [OF this, of "Suc i"] Suc show ?thesis by (simp add: Let_def)
  qed
qed

text \<open>
  C10. Whatever the discovered chapters are, the merged list has the spine's hrefs,
  fragments included, position by position. Where some discovered entry with a
  non-empty title has the same href up to the fragment as \<open>spine[i]\<close>, entry \<open>i\<close> of the
  result carries the title of the first such entry and the href \<open>spine[i]\<close>: the
  discovered entry gives its title only.
\<close>

theorem merge_keeps_spine_hrefs:
  "map ch_href (mergeChaptersWithSpine P bookRootAbs spine chapters) = spine \<and>
   (\<forall>i c. i < length spine \<longrightarrow>
      find (\<lambda>c. strip_fragment (ch_href c) = strip_fragment (spine ! i) \<and> ch_title c \<noteq> []) chapters = Some c \<longrightarrow>
      mergeChaptersWithSpine P bookRootAbs spine chapters ! i = \<lparr>ch_title = ch_title c, ch_href = spine ! i\<rparr>)"
proof (intro conjI allI impI)
  show "map ch_href (mergeChaptersWithSpine P bookRootAbs spine chapters) = spine"
    by (simp add: mergeChaptersWithSpine_def merge_from_hrefs)
next
  fix i c
  assume i: "i < length spine"
    and f: "find (\<lambda>c. strip_fragment (ch_href c) = strip_fragment (spine ! i) \<and> ch_title c \<noteq> []) chapters = Some c"
  from f have t: "ch_title c \<noteq> []"
    by (auto simp: find_Some_iff)
  have "map_of (foldl add_title [] chapters) (strip_fragment (spine ! i)) = Some (ch_title c)"
    by (simp add: map_of_titleMap f)
  with i t show "mergeChaptersWithSpine P bookRootAbs spine chapters ! i = \<lparr>ch_title = ch_title c, ch_href = spine ! i\<rparr>"
    by (simp add: mergeChaptersWithSpine_def merge_from_nth Let_def or_derived_def)
qed

theorem merge_keeps_spine_hrefs_witness:
  "(1::nat) < length [(U ''a.xhtml''), (U ''b.xhtml#x'')] \<and>
   find (\<lambda>c. strip_fragment (ch_href c) = strip_fragment ([(U ''a.xhtml''), (U ''b.xhtml#x'')] ! 1) \<and> ch_title c \<noteq> [])
     [\<lparr>ch_title = (U ''B1''), ch_href = (U ''b.xhtml#s1'')\<rparr>, \<lparr>ch_title = (U ''B2''), ch_href = (U ''b.xhtml#s2'')\<rparr>]
     = Some \<lparr>ch_title = (U ''B1''), ch_href = (U ''b.xhtml#s1'')\<rparr> \<and>
   mergeChaptersWithSpine \<lparr>p_fs = \<lambda>p. None, p_xml = \<lambda>s. Inl XmlError, p_cwd = (U ''/'')\<rparr> (U ''/b'')
     [(U ''a.xhtml''), (U ''b.xhtml#x'')]
     [\<lparr>ch_title = (U ''B1''), ch_href = (U ''b.xhtml#s1'')\<rparr>, \<lparr>ch_title = (U ''B2''), ch_href = (U ''b.xhtml#s2'')\<rparr>] ! 1
     = \<lparr>ch_title = (U ''B1''), ch_href = (U ''b.xhtml#x'')\<rparr> \<and>
   map ch_href (mergeChaptersWithSpine \<lparr>p_fs = \<lambda>p. None, p_xml = \<lambda>s. Inl XmlError, p_cwd = (U ''/'')\<rparr> (U ''/b'')
     [(U ''a.xhtml''), (U ''b.xhtml#x'')]
     [\<lparr>ch_title = (U ''B1''), ch_href = (U ''b.xhtml#s1'')\<rparr>, \<lparr>ch_title = (U ''B2''), ch_href = (U ''b.xhtml#s2'')\<rparr>])
     = [(U ''a.xhtml''), (U ''b.xhtml#x'')]"
proof -
  let ?P = "\<lparr>p_fs = \<lambda>p. None, p_xml = \<lambda>s. Inl XmlError, p_cwd = (U ''/'')\<rparr>"
  let ?sp = "[(U ''a.xhtml''), (U ''b.xhtml#x'')]"
  let ?c = "\<lparr>ch_title = (U ''B1''), ch_href = (U ''b.xhtml#s1'')\<rparr>"
  let ?cs = "[?c, \<lparr>ch_title = (U ''B2''), ch_href = (U ''b.xhtml#s2'')\<rparr>]"
  have f: "find (\<lambda>c. strip_fragment (ch_href c) = strip_fragment (?sp ! 1) \<and> ch_title c \<noteq> []) ?cs = Some ?c"
    by code_simp
  have l: "(1::nat) < length ?sp"
    by simp
  note T = merge_keeps_spine_hrefs [of ?P "(U ''/b'')" ?sp ?cs]
  from T have a: "map ch_href (mergeChaptersWithSpine ?P (U ''/b'') ?sp ?cs) = ?sp"
    by (rule conjunct1)
  from T l f have "mergeChaptersWithSpine ?P (U ''/b'') ?sp ?cs ! 1 = \<lparr>ch_title = ch_title ?c, ch_href = ?sp ! 1\<rparr>"
    by blast
  then have b: "mergeChaptersWithSpine ?P (U ''/b'') ?sp ?cs ! 1 = \<lparr>ch_title = (U ''B1''), ch_href = (U ''b.xhtml#x'')\<rparr>"
    by simp
  from l f b a show ?thesis
    by (intro conjI)
qed

subsection \<open>Paths\<close>

lemma split_on_append: "d \<notin> set w \<Longrightarrow> split_on d (w @ d # rest) = w # split_on d rest"
  by (induction w) auto

lemma split_on_join:
  "\<forall>c \<in> set comps. d \<notin> set c \<Longrightarrow> comps \<noteq> [] \<Longrightarrow>
   split_on d (join_with [d] comps @ d # rest) = comps @ split_on d rest"
proof (induction comps rule: induct_list012)
  case 1
  then show ?case by simp
next
  case (2 w)
  then show ?case by (simp add: split_on_append)
next
  case (3 w v ws)
  then have "split_on d (join_with [d] (v # ws) @ d # rest) = (v # ws) @ split_on d rest"
    by simp
  with 3 show ?case
    using split_on_append [of d w "join_with [d] (v # ws) @ d # rest"] by simp
qed

lemma foldl_segments: "list_all segment cs \<Longrightarrow> foldl (normalize_step a) st cs = rev cs @ st"
  by (induction cs arbitrary: st) (auto simp: segment_def)

lemma join_with_append:
  "pre \<noteq> [] \<Longrightarrow> ws \<noteq> [] \<Longrightarrow> join_with d (pre @ ws) = join_with d pre @ d @ join_with d ws"
proof (induction pre rule: induct_list012)
  case 1
  then show ?case by simp
next
  case (2 w)
  then show ?case by (cases ws) auto
next
  case (3 w v vs)
  then show ?case by simp
qed

lemma resolve_etc_passwd:
  assumes "list_all segment comps" "2 \<le> length comps"
  shows "path_resolve cwd (abs_path comps) (U ''../../etc/passwd'') =
         abs_path (butlast (butlast comps) @ [(U ''etc''), (U ''passwd'')])"
proof -
  from assms(2) have ne: "comps \<noteq> []" by auto
  from assms(1) have ns: "\<forall>c \<in> set comps. (C (CHR ''/'')) \<notin> set c"
    by (auto simp: segment_def list_all_iff)
  have a: "resolve_args cwd (abs_path comps) (U ''../../etc/passwd'') =
           (abs_path comps @ (U ''/../../etc/passwd/''), True)"
    by (simp add: resolve_args_def abs_path_def is_absolute_def U_def C_def)
  have s: "split_on (C (CHR ''/'')) (abs_path comps @ (U ''/../../etc/passwd/'')) =
           [] # comps @ [(U ''..''), (U ''..''), (U ''etc''), (U ''passwd''), []]"
    using split_on_join [OF ns ne, of "(U ''../../etc/passwd/'')"]
    by (simp add: abs_path_def U_def C_def)
  from assms(2) obtain x y zs where r: "rev comps = x # y # zs"
    by (cases "rev comps"; cases "tl (rev comps)") (auto simp: Suc_le_eq)
  from assms(1) have "list_all segment (rev comps)" by (simp add: list_all_iff)
  with r have xy: "x \<noteq> (U ''..'')" "y \<noteq> (U ''..'')" by (auto simp: segment_def)
  from r have "comps = rev zs @ [y, x]"
    by (metis rev.simps(2) rev_rev_ident append.assoc append_Cons append_Nil)
  then have b: "butlast (butlast comps) = rev zs"
    by (simp add: butlast_append)
  have "path_resolve cwd (abs_path comps) (U ''../../etc/passwd'') = (U ''/'') @ join_with (U ''/'') (rev ((U ''passwd'') # (U ''etc'') # zs))"
    using a s xy
    by (simp add: path_resolve_def normalizeString_def foldl_segments [OF assms(1)] r U_def C_def)
  then show ?thesis
    by (simp add: b abs_path_def U_def)
qed

lemma not_prefix_etc:
  assumes "(C (CHR ''/'')) \<notin> set a" "a \<noteq> (U ''etc'')"
  shows "\<not> prefix (a @ (U ''/'') @ b) (U ''etc/passwd'')"
proof
  assume "prefix (a @ (U ''/'') @ b) (U ''etc/passwd'')"
  then obtain z where z: "(U ''etc/passwd'') = a @ (C (CHR ''/'')) # (b @ z)"
    by (auto simp: prefix_def U_def C_def)
  from assms(1) have "takeWhile (\<lambda>c. c \<noteq> (C (CHR ''/''))) (a @ (C (CHR ''/'')) # (b @ z)) = a"
    by (subst takeWhile_append2) auto
  with z [symmetric] have "a = (U ''etc'')" by (simp add: U_def C_def)
  with assms(2) show False by simp
qed

lemma etc_passwd_rejected:
  assumes "list_all segment comps" "2 \<le> length comps" "comps ! (length comps - 2) \<noteq> (U ''etc'')"
  shows "safeJoin cwd (abs_path comps) (U ''../../etc/passwd'') = Inl PathTraversal"
proof -
  from assms(2) obtain x y zs where r: "rev comps = x # y # zs"
    by (cases "rev comps"; cases "tl (rev comps)") (auto simp: Suc_le_eq)
  then have c: "comps = rev zs @ [y, x]"
    by (metis rev.simps(2) rev_rev_ident append.assoc append_Cons append_Nil)
  with assms(3) have y: "y \<noteq> (U ''etc'')"
    by (simp add: nth_append)
  from assms(1) c have "(C (CHR ''/'')) \<notin> set y"
    by (auto simp: segment_def)
  from not_prefix_etc [OF this y] have n: "\<not> prefix (y @ (U ''/'') @ x) (U ''etc/passwd'')" .
  have b: "butlast (butlast comps) = rev zs"
    using c by (simp add: butlast_append)
  have "\<not> prefix (abs_path comps) (abs_path (rev zs @ [(U ''etc''), (U ''passwd'')]))"
  proof (cases "zs = []")
    case True
    with n c show ?thesis by (simp add: abs_path_def U_def)
  next
    case False
    with n c show ?thesis
      by (simp add: abs_path_def join_with_append U_def)
  qed
  with resolve_etc_passwd [OF assms(1,2), of cwd] b show ?thesis
    by (simp add: safeJoin_def startsWith_def)
qed

lemma prefix_abs_path: "prefix (abs_path comps) (abs_path (comps @ rest))"
proof (cases "comps = [] \<or> rest = []")
  case True
  then show ?thesis by (auto simp: abs_path_def)
next
  case False
  then show ?thesis by (simp add: abs_path_def join_with_append)
qed

text \<open>
  The test of \<open>safeJoin\<close> is \<open>startsWith\<close> on the text of the two paths, with no
  separator after the root. It therefore lets through a resolved path in a sibling
  directory whose name begins with the name of the root's last directory. The docstring
  of the function and its use in the resource route ask for containment, so this is a
  defect of the code; the property below says nothing about such paths.
\<close>

lemma sibling_directory_accepted:
  "safeJoin (U ''/'') (U ''/data/books/abc'') (U ''../abcd/x'') = Inr (U ''/data/books/abcd/x'')"
  "safeJoin (U ''/'') (U ''/srv/etc/pass'') (U ''../../etc/passwd'') = Inr (U ''/srv/etc/passwd'')"
  by code_simp+

text \<open>
  C1, as far as the code keeps it by design. \<open>safeJoin\<close> returns
  \<open>path.resolve(root, rel)\<close> or fails with the traversal error, nothing else. A resolved
  path at or below the root is returned. A rejected path is never at or below the root.
  A resolved path whose text does not begin with the text of the root is rejected.
  (Nothing is said about a resolved path that begins with the text of the root without
  being at or below it.) \<open>safeJoin(root, "../../etc/passwd")\<close> fails for every
  normalised absolute root at least two directories deep whose parent directory is not
  named \<open>etc\<close>; at the root \<open>/\<close> it returns \<open>/etc/passwd\<close>, which lies inside that
  root.
\<close>

theorem safeJoin_guard:
  "(\<forall>p. safeJoin cwd root rel = Inr p \<longrightarrow> p = path_resolve cwd root rel) \<and>
   (\<forall>e. safeJoin cwd root rel = Inl e \<longrightarrow> e = PathTraversal \<and>
      (\<forall>comps rest. root = abs_path comps \<longrightarrow> path_resolve cwd root rel \<noteq> abs_path (comps @ rest))) \<and>
   (\<forall>comps rest. root = abs_path comps \<longrightarrow> path_resolve cwd root rel = abs_path (comps @ rest) \<longrightarrow>
       safeJoin cwd root rel = Inr (abs_path (comps @ rest))) \<and>
   (\<not> prefix root (path_resolve cwd root rel) \<longrightarrow> safeJoin cwd root rel = Inl PathTraversal) \<and>
   (\<forall>comps. list_all segment comps \<longrightarrow> 2 \<le> length comps \<longrightarrow> comps ! (length comps - 2) \<noteq> U ''etc'' \<longrightarrow>
       safeJoin cwd (abs_path comps) (U ''../../etc/passwd'') = Inl PathTraversal) \<and>
   safeJoin cwd (U ''/'') (U ''../../etc/passwd'') = Inr (U ''/etc/passwd'')"
proof (intro conjI allI impI)
  fix p assume "safeJoin cwd root rel = Inr p"
  then show "p = path_resolve cwd root rel"
    by (auto simp: safeJoin_def startsWith_def Let_def split: if_splits)
next
  fix e assume "safeJoin cwd root rel = Inl e"
  then show "e = PathTraversal"
    by (auto simp: safeJoin_def startsWith_def Let_def split: if_splits)
next
  fix e comps rest
  assume e: "safeJoin cwd root rel = Inl e" and r: "root = abs_path comps"
  show "path_resolve cwd root rel \<noteq> abs_path (comps @ rest)"
  proof
    assume "path_resolve cwd root rel = abs_path (comps @ rest)"
    with r have "prefix root (path_resolve cwd root rel)"
      by (simp add: prefix_abs_path)
    with e show False
      by (simp add: safeJoin_def startsWith_def)
  qed
next
  fix comps rest
  assume "root = abs_path comps" "path_resolve cwd root rel = abs_path (comps @ rest)"
  with prefix_abs_path [of comps rest] show "safeJoin cwd root rel = Inr (abs_path (comps @ rest))"
    by (simp add: safeJoin_def startsWith_def)
next
  assume "\<not> prefix root (path_resolve cwd root rel)"
  then show "safeJoin cwd root rel = Inl PathTraversal"
    by (simp add: safeJoin_def startsWith_def)
next
  fix comps
  assume "list_all segment comps" "2 \<le> length comps" "comps ! (length comps - 2) \<noteq> U ''etc''"
  then show "safeJoin cwd (abs_path comps) (U ''../../etc/passwd'') = Inl PathTraversal"
    by (rule etc_passwd_rejected)
next
  show "safeJoin cwd (U ''/'') (U ''../../etc/passwd'') = Inr (U ''/etc/passwd'')"
    by (simp add: safeJoin_def path_resolve_def resolve_args_def is_absolute_def normalizeString_def
          startsWith_def U_def C_def)
qed

theorem safeJoin_guard_witness:
  "list_all segment [U ''data'', U ''books'', U ''abc''] \<and>
   2 \<le> length [U ''data'', U ''books'', U ''abc''] \<and>
   [U ''data'', U ''books'', U ''abc''] ! (length [U ''data'', U ''books'', U ''abc''] - 2) \<noteq> U ''etc'' \<and>
   safeJoin (U ''/'') (abs_path [U ''data'', U ''books'', U ''abc'']) (U ''../../etc/passwd'') = Inl PathTraversal \<and>
   path_resolve (U ''/'') (abs_path [U ''data'', U ''books'', U ''abc'']) (U ''../../etc/passwd'') \<noteq>
     abs_path ([U ''data'', U ''books'', U ''abc''] @ [U ''etc'', U ''passwd'']) \<and>
   path_resolve (U ''/'') (abs_path [U ''data'', U ''books'', U ''abc'']) (U ''text/../c1.xhtml'') =
     abs_path ([U ''data'', U ''books'', U ''abc''] @ [U ''c1.xhtml'']) \<and>
   safeJoin (U ''/'') (abs_path [U ''data'', U ''books'', U ''abc'']) (U ''text/../c1.xhtml'') =
     Inr (abs_path ([U ''data'', U ''books'', U ''abc''] @ [U ''c1.xhtml''])) \<and>
   \<not> prefix (abs_path [U ''data'', U ''books'', U ''abc''])
       (path_resolve (U ''/'') (abs_path [U ''data'', U ''books'', U ''abc'']) (U ''../xyz/c1.xhtml'')) \<and>
   safeJoin (U ''/'') (abs_path [U ''data'', U ''books'', U ''abc'']) (U ''../xyz/c1.xhtml'') = Inl PathTraversal"
proof -
  let ?comps = "[U ''data'', U ''books'', U ''abc'']"
  have s: "list_all segment ?comps"
    by code_simp
  have l: "2 \<le> length ?comps"
    by simp
  have e: "?comps ! (length ?comps - 2) \<noteq> U ''etc''"
    by code_simp
  have r: "path_resolve (U ''/'') (abs_path ?comps) (U ''text/../c1.xhtml'') = abs_path (?comps @ [U ''c1.xhtml''])"
    by code_simp
  have n: "\<not> prefix (abs_path ?comps) (path_resolve (U ''/'') (abs_path ?comps) (U ''../xyz/c1.xhtml''))"
    by code_simp
  from safeJoin_guard [of "U ''/''" "abs_path ?comps" "U ''../../etc/passwd''"] s l e
  have a: "safeJoin (U ''/'') (abs_path ?comps) (U ''../../etc/passwd'') = Inl PathTraversal"
    by blast
  from safeJoin_guard [of "U ''/''" "abs_path ?comps" "U ''../../etc/passwd''"] a
  have o: "path_resolve (U ''/'') (abs_path ?comps) (U ''../../etc/passwd'') \<noteq> abs_path (?comps @ [U ''etc'', U ''passwd''])"
    by blast
  from safeJoin_guard [of "U ''/''" "abs_path ?comps" "U ''text/../c1.xhtml''"] r
  have b: "safeJoin (U ''/'') (abs_path ?comps) (U ''text/../c1.xhtml'') = Inr (abs_path (?comps @ [U ''c1.xhtml'']))"
    by blast
  from safeJoin_guard [of "U ''/''" "abs_path ?comps" "U ''../xyz/c1.xhtml''"] n
  have c: "safeJoin (U ''/'') (abs_path ?comps) (U ''../xyz/c1.xhtml'') = Inl PathTraversal"
    by blast
  from s l e a o r b n c show ?thesis
    by (intro conjI)
qed

theorem etc_passwd_accepted_at_root:
  "safeJoin (U ''/'') (U ''/'') (U ''../../etc/passwd'') = Inr (U ''/etc/passwd'')"
  by code_simp

subsection \<open>Evaluating the example packages\<close>

lemma plain_pkg_parse: "parseOpf plain_pkg (U ''/b'') (U ''OEBPS/content.opf'') = Inr plain_manifest"
  by code_simp

lemma plain_pkg_loads:
  "safeJoin (p_cwd plain_pkg) (U ''/b'') (U ''OEBPS/content.opf'') = Inr (U ''/b/OEBPS/content.opf'')"
  "readText (p_fs plain_pkg) (U ''/b/OEBPS/content.opf'') = Inr plain_opf_text"
  "p_xml plain_pkg plain_opf_text = Inr plain_opf"
  by code_simp+

lemma toc_pkg_parse: "parseOpf toc_pkg (U ''/b'') (U ''content.opf'') = Inr toc_manifest"
  by code_simp

lemma escape_pkg_parse: "parseOpf escape_pkg (U ''/b'') (U ''content.opf'') = Inr escape_manifest"
  by code_simp

lemma deep_pkg_parse: "parseOpf deep_pkg (U ''/b'') (U ''OEBPS/pkg/content.opf'') = Inr deep_manifest"
  by code_simp

subsection \<open>Which errors a stage can raise\<close>

lemma safeJoin_error: "safeJoin cwd r p = Inl e \<Longrightarrow> e = PathTraversal"
  by (auto simp: safeJoin_def Let_def split: if_splits)

lemma has_property_error: "has_property ps n = Inl e \<Longrightarrow> e = TypeError"
  by (auto simp: has_property_def split: if_splits json.splits)

lemma find_property_error: "find_property n vs = Inl e \<Longrightarrow> e = TypeError"
  by (induction vs) (auto split: sum.splits bool.splits dest: has_property_error)

lemma ncxChapters_error: "ncxChapters P r d j mm = Inl e \<Longrightarrow> e = PathTraversal"
  by (auto simp: ncxChapters_def Let_def split: if_splits option.splits sum.splits dest: safeJoin_error)

lemma navChapters_error: "navChapters P r d mm = Inl e \<Longrightarrow> e = PathTraversal \<or> e = TypeError"
  by (auto simp: navChapters_def Let_def split: if_splits option.splits sum.splits
           dest: safeJoin_error find_property_error)

lemma extractChapters_error:
  "extractChapters P r d j mm sp = Inl e \<Longrightarrow> e = PathTraversal \<or> e = TypeError"
  by (auto simp: extractChapters_def split: if_splits sum.splits dest: ncxChapters_error navChapters_error)

lemma extractCoverHref_error: "extractCoverHref P r d j mm sp = Inl e \<Longrightarrow> e = TypeError"
  by (auto simp: extractCoverHref_def Let_def split: if_splits option.splits sum.splits list.splits
           dest: find_property_error)

lemma detectVertical_total: "\<exists>b. detectVertical P r sp opf = Inr b"
  by (cases sp) (auto simp: detectVertical_def)

lemma parseOpf_Inr:
  assumes "parseOpf P r opf = Inr m"
  obtains p x json toc where "safeJoin (p_cwd P) r opf = Inr p" "readText (p_fs P) p = Inr x" "p_xml P x = Inr json"
    "opf_spine json opf \<noteq> []"
    "extractChapters P r (opf_dir opf) json (opf_manifestMap json) (opf_spine json opf) = Inr toc"
    "bm_title m = opf_title json" "bm_opfPath m = opf" "bm_spine m = opf_spine json opf"
    "bm_chapters m = (if length toc < length (opf_spine json opf)
                      then mergeChaptersWithSpine P r (opf_spine json opf) toc else toc)"
    "extractCoverHref P r (opf_dir opf) json (opf_manifestMap json) (opf_spine json opf) = Inr (bm_coverHref m)"
    "detectVertical P r (opf_spine json opf) opf = Inr (bm_vertical m)"
  using assms
  by (auto simp: parseOpf_def parseOpf_json_def Let_def split: sum.splits if_splits)

subsection \<open>The title\<close>

lemma absent_title_is_Untitled:
  "coalesce (get (get (get json (U ''package'')) (U ''metadata'')) (U ''dc:title''))
            (get (get (get json (U ''package'')) (U ''metadata'')) (U ''title'')) \<in> {JUndef, JNull}
   \<Longrightarrow> opf_title json = (U ''Untitled'')"
  by (cases "get (get (get json (U ''package'')) (U ''metadata'')) (U ''dc:title'')";
      cases "get (get (get json (U ''package'')) (U ''metadata'')) (U ''title'')")
     (auto simp: opf_title_def Let_def)

text \<open>
  C4 asks for the title \<open>Untitled\<close> when the title element is there and its text is
  empty. The parser gives the empty string for such an element, \<open>asText\<close> returns it
  unchanged (its last line, \<open>String(x)\<close>), and \<open>??\<close> replaces only \<open>null\<close> and
  \<open>undefined\<close>: the manifest's title is the empty string.
\<close>

theorem empty_title_is_kept:
  "opf_title (JObj [((U ''package''), JObj [((U ''metadata''), JObj [((U ''dc:title''), JStr [])])])]) = []"
  by (simp add: opf_title_def)

subsection \<open>The spine\<close>

text \<open>
  The pieces of the spine computation against their descriptions: the separators, the
  directory of the package document, the manifest table.
\<close>

lemma children_spec: "asArray (coalesce (get x k) (JArr [])) = spec_children x k"
  by (cases "get x k") (simp_all add: spec_children_def)

lemma split_on_nonempty: "split_on d s \<noteq> []"
  by (induction s) (auto split: list.splits)

lemma slashes_spec: "slashes s = spec_separators s"
proof (induction s)
  case Nil
  show ?case by (simp add: slashes_def spec_separators_def)
next
  case (Cons c cs)
  obtain w ws where w: "split_on 0x5C cs = w # ws"
    using split_on_nonempty [of "0x5C" cs] by (cases "split_on 0x5C cs") auto
  from Cons show ?case
    by (simp add: slashes_def spec_separators_def w join_with_Cons U_def C_def)
qed


lemma resolveHref_spec: "resolveHref d h = under_directory d h"
  by (simp add: resolveHref_def under_directory_def slashes_spec)

lemma opf_dir_spec:
  assumes "relative_file_path p"
  shows "opf_dir p = spec_containing_dir p"
proof (cases p)
  case Nil
  then show ?thesis
    by (simp add: opf_dir_def posix_dirname_def spec_containing_dir_def)
next
  case (Cons c cs)
  let ?s = "\<lambda>x. x \<noteq> C (CHR ''/'')"
  from assms Cons have c: "c \<noteq> C (CHR ''/'')"
    by (auto simp: relative_file_path_def U_def C_def)
  have l: "last cs \<noteq> C (CHR ''/'')" if "cs \<noteq> []"
  proof
    assume "last cs = C (CHR ''/'')"
    with that have "c # cs = (c # butlast cs) @ U ''/''"
      using append_butlast_last_id [of cs] by (simp add: U_def C_def)
    then have "suffix (U ''/'') (c # cs)"
      unfolding suffix_def by blast
    with assms Cons show False
      by (simp add: relative_file_path_def)
  qed
  have d: "dropWhile (\<lambda>x. x = C (CHR ''/'')) (rev cs) = rev cs"
    using l by (cases cs rule: rev_cases) auto
  show ?thesis
  proof (cases "C (CHR ''/'') \<in> set cs")
    case False
    then have "dropWhile ?s (rev cs) = []"
      by auto
    with False c d Cons show ?thesis
      by (simp add: opf_dir_def posix_dirname_def spec_containing_dir_def Let_def)
  next
    case True
    then have r: "dropWhile ?s (rev cs) \<noteq> []"
      by (auto simp: dropWhile_eq_Nil_conv)
    from True have a: "dropWhile ?s (rev cs @ [c]) = dropWhile ?s (rev cs) @ [c]"
      by (intro dropWhile_append1 [of "C (CHR ''/'')"]) auto
    from r have "rev (tl (dropWhile ?s (rev cs) @ [c])) = c # rev (tl (dropWhile ?s (rev cs)))"
      by (cases "dropWhile ?s (rev cs)") simp_all
    with True c d r a Cons show ?thesis
      by (simp add: opf_dir_def posix_dirname_def spec_containing_dir_def Let_def
            del: dropWhile_eq_Nil_conv)
  qed
qed

lemma spec_item_href_nonempty: "spec_item_href items i = Some h \<Longrightarrow> h \<noteq> []"
proof -
  have "isString x \<Longrightarrow> str_of x \<noteq> []" for x
    by (cases x) auto
  then show "spec_item_href items i = Some h \<Longrightarrow> h \<noteq> []"
    by (auto simp: spec_item_href_def find_Some_iff split: option.splits)
qed

lemma table_spec:
  assumes "i \<noteq> []"
  shows "map_option item_href (map_of (foldl add_item mm items) i) =
     (case spec_item_href items i of Some h \<Rightarrow> Some h | None \<Rightarrow> map_option item_href (map_of mm i))"
proof (induction items rule: rev_induct)
  case Nil
  show ?case by (simp add: spec_item_href_def)
next
  case (snoc x xs)
  have s: "isString v \<Longrightarrow> (str_of v = i \<longleftrightarrow> v = JStr i)" for v
    by (cases v) auto
  have n: "\<not> isString v \<Longrightarrow> v \<noteq> JStr i" for v
    using assms by (cases v) auto
  show ?case
  proof (cases "isString (get x (U ''@_id'')) \<and> isString (get x (U ''@_href''))")
    case True
    with snoc s [of "get x (U ''@_id'')"] show ?thesis
      by (auto simp: add_item_def Let_def update_conv' spec_item_href_def split: option.splits)
  next
    case False
    with snoc n [of "get x (U ''@_id'')"] show ?thesis
      by (auto simp: add_item_def Let_def spec_item_href_def split: option.splits)
  qed
qed

lemma opf_spine_spec:
  assumes "relative_file_path opf"
  shows "opf_spine json opf = spec_spine (declared_items json) (spec_containing_dir opf) (declared_itemrefs json)"
proof -
  let ?items = "declared_items json"
  let ?mm = "foldl add_item [] ?items"
  have t: "i \<noteq> [] \<Longrightarrow> map_option item_href (map_of ?mm i) = spec_item_href ?items i" for i
    using table_spec [of i "[]" ?items] by (cases "spec_item_href ?items i") simp_all
  have "map (\<lambda>href. resolveHref d (str_of href))
          (filter isString (map (item_href_of ?mm) (filter isString (map (\<lambda>it. get it (U ''@_idref'')) xs))))
        = spec_spine ?items d xs" for d xs
  proof (induction xs)
    case Nil
    show ?case by simp
  next
    case (Cons x xs)
    show ?case
    proof (cases "get x (U ''@_idref'')")
      case (JStr i)
      show ?thesis
      proof (cases "i = []")
        case True
        with JStr Cons show ?thesis by simp
      next
        case False
        show ?thesis
        proof (cases "spec_item_href ?items i")
          case None
          with t [OF False] have "map_of ?mm i = None" by simp
          with JStr Cons False None show ?thesis
            by (simp add: item_href_of_def)
        next
          case (Some h)
          with t [OF False] obtain it where "map_of ?mm i = Some it" "item_href it = h"
            by auto
          with JStr Cons False Some spec_item_href_nonempty [OF Some] show ?thesis
            by (simp add: item_href_of_def resolveHref_spec)
        qed
      qed
    qed (use Cons in simp_all)
  qed
  then show ?thesis
    by (simp add: opf_spine_def opf_manifestMap_def declared_itemrefs_def declared_items_def Let_def
          children_spec opf_dir_spec [OF assms])
qed

lemma parseOpf_json_EmptySpine:
  "parseOpf_json P r opf json = Inl EmptySpine \<longleftrightarrow> opf_spine json opf = []"
proof
  assume "opf_spine json opf = []"
  then show "parseOpf_json P r opf json = Inl EmptySpine"
    by (simp add: parseOpf_json_def)
next
  assume a: "parseOpf_json P r opf json = Inl EmptySpine"
  show "opf_spine json opf = []"
  proof (rule ccontr)
    assume n: "opf_spine json opf \<noteq> []"
    let ?sp = "opf_spine json opf"
    let ?mm = "opf_manifestMap json"
    show False
    proof (cases "extractChapters P r (opf_dir opf) json ?mm ?sp")
      case (Inl e)
      with a n have "e = EmptySpine" by (simp add: parseOpf_json_def Let_def)
      with extractChapters_error [OF Inl] show False by simp
    next
      case toc: (Inr toc)
      show False
      proof (cases "extractCoverHref P r (opf_dir opf) json ?mm ?sp")
        case (Inl e)
        with a n toc have "e = EmptySpine" by (simp add: parseOpf_json_def Let_def)
        with extractCoverHref_error [OF Inl] show False by simp
      next
        case (Inr c)
        from detectVertical_total obtain b where "detectVertical P r ?sp opf = Inr b" by blast
        with a n toc Inr show False by (simp add: parseOpf_json_def Let_def)
      qed
    qed
  qed
qed


text \<open>
  C5. Let the package document be read and parsed, its path a relative path that names
  a file. The spine of the manifest is then the one the specification describes: each
  declared item reference, in order, is looked up by its id in the manifest table (for
  an id declared more than once the last declaration counts); a reference that does not
  resolve is skipped; the href found is taken relative to the directory that contains
  the package document, and its path separators are normalised (every backslash becomes
  a slash). \<open>parseOpf\<close> fails with the empty-spine error exactly when that sequence is
  empty, and returns no manifest then.
\<close>

theorem spine_resolution:
  assumes "relative_file_path opfRelPath"
    and "safeJoin (p_cwd P) bookRootAbs opfRelPath = Inr opfAbs"
    and "readText (p_fs P) opfAbs = Inr opfXml"
    and "p_xml P opfXml = Inr json"
  shows "(parseOpf P bookRootAbs opfRelPath = Inl EmptySpine \<longleftrightarrow>
            spec_spine (declared_items json) (spec_containing_dir opfRelPath) (declared_itemrefs json) = []) \<and>
         (\<forall>m. parseOpf P bookRootAbs opfRelPath = Inr m \<longrightarrow>
            bm_spine m = spec_spine (declared_items json) (spec_containing_dir opfRelPath) (declared_itemrefs json))"
proof -
  from assms(2-4) have p: "parseOpf P bookRootAbs opfRelPath = parseOpf_json P bookRootAbs opfRelPath json"
    by (simp add: parseOpf_def)
  have "\<forall>m. parseOpf_json P bookRootAbs opfRelPath json = Inr m \<longrightarrow> bm_spine m = opf_spine json opfRelPath"
    by (auto simp: parseOpf_json_def Let_def split: if_splits sum.splits)
  with p show ?thesis
    by (simp add: parseOpf_json_EmptySpine opf_spine_spec [OF assms(1)])
qed

theorem spine_resolution_witness:
  "relative_file_path (U ''OEBPS/pkg/content.opf'') \<and>
   safeJoin (p_cwd deep_pkg) (U ''/b'') (U ''OEBPS/pkg/content.opf'') = Inr (U ''/b/OEBPS/pkg/content.opf'') \<and>
   readText (p_fs deep_pkg) (U ''/b/OEBPS/pkg/content.opf'') = Inr (U ''D'') \<and>
   p_xml deep_pkg (U ''D'') = Inr deep_opf \<and>
   parseOpf deep_pkg (U ''/b'') (U ''OEBPS/pkg/content.opf'') = Inr deep_manifest \<and>
   spec_spine (declared_items deep_opf) (spec_containing_dir (U ''OEBPS/pkg/content.opf'')) (declared_itemrefs deep_opf) =
     [U ''OEBPS/pkg/b/c1.xhtml'', U ''OEBPS/pkg/c2.xhtml''] \<and>
   relative_file_path (U ''content.opf'') \<and>
   safeJoin (p_cwd empty_pkg) (U ''/b'') (U ''content.opf'') = Inr (U ''/b/content.opf'') \<and>
   readText (p_fs empty_pkg) (U ''/b/content.opf'') = Inr (U ''E'') \<and>
   p_xml empty_pkg (U ''E'') = Inr (JObj []) \<and>
   spec_spine (declared_items (JObj [])) (spec_containing_dir (U ''content.opf'')) (declared_itemrefs (JObj [])) = [] \<and>
   parseOpf empty_pkg (U ''/b'') (U ''content.opf'') = Inl EmptySpine"
proof -
  have r: "relative_file_path (U ''OEBPS/pkg/content.opf'')"
    by code_simp
  have d: "safeJoin (p_cwd deep_pkg) (U ''/b'') (U ''OEBPS/pkg/content.opf'') = Inr (U ''/b/OEBPS/pkg/content.opf'')"
    "readText (p_fs deep_pkg) (U ''/b/OEBPS/pkg/content.opf'') = Inr (U ''D'')"
    "p_xml deep_pkg (U ''D'') = Inr deep_opf"
    by code_simp+
  note T = spine_resolution [OF r d]
  from T deep_pkg_parse
  have "bm_spine deep_manifest =
        spec_spine (declared_items deep_opf) (spec_containing_dir (U ''OEBPS/pkg/content.opf'')) (declared_itemrefs deep_opf)"
    by blast
  then have a: "spec_spine (declared_items deep_opf) (spec_containing_dir (U ''OEBPS/pkg/content.opf'')) (declared_itemrefs deep_opf) =
     [U ''OEBPS/pkg/b/c1.xhtml'', U ''OEBPS/pkg/c2.xhtml'']"
    by (simp add: deep_manifest_def)
  have r': "relative_file_path (U ''content.opf'')"
    by code_simp
  have e: "safeJoin (p_cwd empty_pkg) (U ''/b'') (U ''content.opf'') = Inr (U ''/b/content.opf'')"
    "readText (p_fs empty_pkg) (U ''/b/content.opf'') = Inr (U ''E'')"
    "p_xml empty_pkg (U ''E'') = Inr (JObj [])"
    by code_simp+
  have s: "spec_spine (declared_items (JObj [])) (spec_containing_dir (U ''content.opf'')) (declared_itemrefs (JObj [])) = []"
    by code_simp
  from spine_resolution [OF r' e] s have b: "parseOpf empty_pkg (U ''/b'') (U ''content.opf'') = Inl EmptySpine"
    by blast
  from r d deep_pkg_parse a r' e s b show ?thesis
    by (intro conjI)
qed

subsection \<open>The tiers of the chapter list\<close>

text \<open>
  C6. When the NCX named by the spine yields at least one entry, \<open>extractChapters\<close>
  returns exactly these entries, whatever the navigation document and the spine
  documents hold: neither later block is reached.
\<close>

theorem legacy_toc_wins:
  "ncxChapters P bookRootAbs opfDir opfJson manifestMap = Inr chapters \<Longrightarrow> chapters \<noteq> [] \<Longrightarrow>
   extractChapters P bookRootAbs opfDir opfJson manifestMap spine = Inr chapters"
  by (simp add: extractChapters_def)

theorem legacy_toc_wins_witness:
  "ncxChapters toc_pkg (U ''/b'') [] toc_opf (opf_manifestMap toc_opf) =
     Inr [\<lparr>ch_title = (U ''One''), ch_href = (U ''c1.xhtml'')\<rparr>, \<lparr>ch_title = (U ''Two''), ch_href = (U ''c1.xhtml#s2'')\<rparr>] \<and>
   [\<lparr>ch_title = (U ''One''), ch_href = (U ''c1.xhtml'')\<rparr>, \<lparr>ch_title = (U ''Two''), ch_href = (U ''c1.xhtml#s2'')\<rparr>] \<noteq> [] \<and>
   navChapters toc_pkg (U ''/b'') [] (opf_manifestMap toc_opf) = Inr [\<lparr>ch_title = (U ''Nine''), ch_href = (U ''c9.xhtml'')\<rparr>] \<and>
   extractChapters toc_pkg (U ''/b'') [] toc_opf (opf_manifestMap toc_opf) [(U ''c1.xhtml'')] =
     Inr [\<lparr>ch_title = (U ''One''), ch_href = (U ''c1.xhtml'')\<rparr>, \<lparr>ch_title = (U ''Two''), ch_href = (U ''c1.xhtml#s2'')\<rparr>]"
proof -
  let ?cs = "[\<lparr>ch_title = (U ''One''), ch_href = (U ''c1.xhtml'')\<rparr>, \<lparr>ch_title = (U ''Two''), ch_href = (U ''c1.xhtml#s2'')\<rparr>]"
  have n: "ncxChapters toc_pkg (U ''/b'') [] toc_opf (opf_manifestMap toc_opf) = Inr ?cs"
    by code_simp
  have e: "?cs \<noteq> []"
    by simp
  have v: "navChapters toc_pkg (U ''/b'') [] (opf_manifestMap toc_opf) = Inr [\<lparr>ch_title = (U ''Nine''), ch_href = (U ''c9.xhtml'')\<rparr>]"
    by code_simp
  from n e v legacy_toc_wins [OF n e, of "[(U ''c1.xhtml'')]"] show ?thesis
    by (intro conjI)
qed






























lemma digits_value: "decimal_value (digits n) = n"
proof (induction n rule: digits.induct)
  case (1 n)
  show ?case
  proof (cases "n < 10")
    case True
    then have "n \<in> {0,1,2,3,4,5,6,7,8,9}" by auto
    then have "(U ''0123456789'') ! n - 48 = n"
      by (auto simp: U_def)
    with True show ?thesis
      by (subst digits.simps) simp
  next
    case False
    have "n mod 10 \<in> {0,1,2,3,4,5,6,7,8,9}"
      using mod_less_divisor [of 10 n] by (auto simp del: mod_less_divisor)
    then have d: "(U ''0123456789'') ! (n mod 10) - 48 = n mod 10"
      by (auto simp: U_def)
    from False 1 have "decimal_value (digits (n div 10)) = n div 10" by simp
    with False d show ?thesis
      by (subst digits.simps) simp
  qed
qed

lemma spineChapters_hrefs: "map ch_href (spineChapters P r i sp) = sp"
  by (induction sp arbitrary: i) (simp_all add: Let_def)






subsection \<open>Writing direction\<close>




subsection \<open>The hrefs of the manifest\<close>

lemma walk_hrefs: "c \<in> set (walk opfDir np) \<Longrightarrow> package_href opfDir (ch_href c)"
proof (induction opfDir np arbitrary: c rule: walk.induct)
  case (1 opfDir np)
  let ?label = "get (get np (U ''navLabel'')) (U ''text'')"
  let ?src = "get (get np (U ''content'')) (U ''@_src'')"
  let ?own = "if isString ?label \<and> isString ?src
              then [\<lparr>ch_title = str_of ?label,
                     ch_href = slashes (if opfDir \<noteq> [] then opfDir @ (U ''/'') @ str_of ?src else str_of ?src)\<rparr>]
              else []"
  let ?kids = "filter truthy (asArray (coalesce (get np (U ''navPoint'')) (JArr [])))"
  from "1.prems" have "c \<in> set ?own \<or> (\<exists>x \<in> set ?kids. c \<in> set (walk opfDir x))"
    by (subst (asm) walk.simps) (auto simp: Let_def)
  then show ?case
  proof
    assume c: "c \<in> set ?own"
    then have "isString ?src" by (auto split: if_splits)
    then have "str_of ?src \<noteq> []" by (cases ?src) auto
    with c show ?thesis
      unfolding package_href_def by (intro exI [of _ "str_of ?src"]) (auto split: if_splits)
  next
    assume "\<exists>x \<in> set ?kids. c \<in> set (walk opfDir x)"
    then obtain x where "x \<in> set ?kids" "c \<in> set (walk opfDir x)" by blast
    with "1.IH" [OF refl refl refl refl refl] show ?thesis by blast
  qed
qed

lemma anchor_hrefs:
  assumes "c \<in> set (anchor_chapters opfDir b)"
  shows "package_href opfDir (ch_href c)"
proof -
  from assms obtain m where "group 1 m \<noteq> []"
    "ch_href c = slashes (if opfDir \<noteq> [] then opfDir @ (U ''/'') @ group 1 m else group 1 m)"
    by (auto simp: anchor_chapters_def Let_def split: if_splits)
  then show ?thesis
    unfolding package_href_def by blast
qed

lemma ncxChapters_hrefs:
  "ncxChapters P r d j mm = Inr cs \<Longrightarrow> c \<in> set cs \<Longrightarrow> package_href d (ch_href c)"
  by (auto simp: ncxChapters_def Let_def split: if_splits option.splits sum.splits dest: walk_hrefs)

lemma navChapters_hrefs:
  "navChapters P r d mm = Inr cs \<Longrightarrow> c \<in> set cs \<Longrightarrow> package_href d (ch_href c)"
  by (auto simp: navChapters_def Let_def split: if_splits option.splits sum.splits dest: anchor_hrefs)

lemma extractChapters_hrefs:
  assumes "extractChapters P r d j mm sp = Inr cs" "c \<in> set cs"
  shows "package_href d (ch_href c) \<or> ch_href c \<in> set sp"
proof -
  from assms consider "ncxChapters P r d j mm = Inr cs" | "navChapters P r d mm = Inr cs"
    | "cs = spineChapters P r 0 sp"
    by (auto simp: extractChapters_def split: sum.splits if_splits)
  then show ?thesis
  proof cases
    case 1
    with assms(2) show ?thesis by (auto dest: ncxChapters_hrefs)
  next
    case 2
    with assms(2) show ?thesis by (auto dest: navChapters_hrefs)
  next
    case 3
    with assms(2) have "ch_href c \<in> set (map ch_href (spineChapters P r 0 sp))" by simp
    then show ?thesis by (simp only: spineChapters_hrefs) simp
  qed
qed

lemma add_item_hrefs:
  "\<forall>v \<in> snd ` set mm. item_href v \<noteq> [] \<Longrightarrow> \<forall>v \<in> snd ` set (add_item mm it). item_href v \<noteq> []"
proof -
  have u: "v \<in> snd ` set (AList.update k w al) \<Longrightarrow> v = w \<or> v \<in> snd ` set al" for v w k and al :: manifest_map
    by (induction al) (auto split: if_splits)
  assume a: "\<forall>v \<in> snd ` set mm. item_href v \<noteq> []"
  show ?thesis
  proof
    fix v assume v: "v \<in> snd ` set (add_item mm it)"
    show "item_href v \<noteq> []"
    proof (cases "isString (get it (U ''@_id'')) \<and> isString (get it (U ''@_href''))")
      case True
      then have "str_of (get it (U ''@_href'')) \<noteq> []" by (cases "get it (U ''@_href'')") auto
      with v True a u [of v "str_of (get it (U ''@_id''))"] show ?thesis
        by (fastforce simp: add_item_def Let_def)
    next
      case False
      with v a show ?thesis by (auto simp: add_item_def Let_def)
    qed
  qed
qed

lemma manifestMap_hrefs: "v \<in> snd ` set (opf_manifestMap json) \<Longrightarrow> item_href v \<noteq> []"
proof -
  have "\<forall>v \<in> snd ` set mm. item_href v \<noteq> [] \<Longrightarrow> \<forall>v \<in> snd ` set (foldl add_item mm xs). item_href v \<noteq> []" for mm xs
  proof (induction xs arbitrary: mm)
    case Nil
    then show ?case by simp
  next
    case (Cons x xs)
    from Cons.IH [OF add_item_hrefs [OF Cons.prems]] show ?case by simp
  qed
  from this [of "[]"] have "\<forall>v \<in> snd ` set (foldl add_item [] xs). item_href v \<noteq> []" for xs
    by simp
  then show "v \<in> snd ` set (opf_manifestMap json) \<Longrightarrow> item_href v \<noteq> []"
    unfolding opf_manifestMap_def Let_def by blast
qed

lemma find_property_mem: "find_property n vs = Inr (Some v) \<Longrightarrow> v \<in> set vs"
  by (induction vs) (auto split: sum.splits bool.splits)

lemma first_image_nonempty: "first_image html = Some src \<Longrightarrow> src \<noteq> []"
  by (auto simp: first_image_def split: option.splits if_splits)

lemma extractCoverHref_href:
  assumes "extractCoverHref P r d j mm sp = Inr (Some h)" "\<forall>v \<in> snd ` set mm. item_href v \<noteq> []"
  shows "package_href d h"
proof -
  have n: "x \<noteq> [] \<Longrightarrow> package_href d (normalizeHref d x)" for x
    by (auto simp: package_href_def normalizeHref_def)
  have f: "find_property (U ''cover-image'') (map snd mm) = Inr (Some v) \<Longrightarrow> item_href v \<noteq> []" for v
    using find_property_mem [of "(U ''cover-image'')" "map snd mm" v] assms(2) by auto
  have i: "first_doc_image P r first = Inr (Some src) \<Longrightarrow> src \<noteq> []" for first src
    by (auto simp: first_doc_image_def split: sum.splits dest: first_image_nonempty)
  from assms(1) show ?thesis
    by (auto simp: extractCoverHref_def Let_def split: option.splits if_splits sum.splits list.splits
          intro!: n dest: f i)
qed

lemma opf_spine_hrefs: "h \<in> set (opf_spine json opf) \<Longrightarrow> package_href (opf_dir opf) h"
proof -
  have "isString x \<Longrightarrow> package_href d (resolveHref d (str_of x))" for x d
    unfolding package_href_def resolveHref_def by (cases x) auto
  then show "h \<in> set (opf_spine json opf) \<Longrightarrow> package_href (opf_dir opf) h"
    by (auto simp: opf_spine_def Let_def)
qed

text \<open>
  C2, as the code has it. The path of the package document has passed \<open>safeJoin\<close>
  before anything is read. The hrefs of spine, chapters and cover have not: each is a
  non-empty reference found in the package, put under the directory of the package
  document with backslashes replaced, and stored as it is. \<open>safeJoin\<close> is applied where
  the parser opens a file, and a spine href it rejects stays in the manifest.
\<close>

theorem manifest_hrefs_are_package_relative:
  assumes "parseOpf P bookRootAbs opfRelPath = Inr m"
  shows "(\<exists>p. safeJoin (p_cwd P) bookRootAbs (bm_opfPath m) = Inr p) \<and>
         (\<forall>h \<in> set (bm_spine m) \<union> ch_href ` set (bm_chapters m) \<union> set_option (bm_coverHref m).
             package_href (opf_dir opfRelPath) h)"
proof -
  from assms obtain p x json toc where s: "safeJoin (p_cwd P) bookRootAbs opfRelPath = Inr p"
    and toc: "extractChapters P bookRootAbs (opf_dir opfRelPath) json (opf_manifestMap json) (opf_spine json opfRelPath) = Inr toc"
    and m: "bm_opfPath m = opfRelPath" "bm_spine m = opf_spine json opfRelPath"
      "bm_chapters m = (if length toc < length (opf_spine json opfRelPath)
                      then mergeChaptersWithSpine P bookRootAbs (opf_spine json opfRelPath) toc else toc)"
    and c: "extractCoverHref P bookRootAbs (opf_dir opfRelPath) json (opf_manifestMap json) (opf_spine json opfRelPath) = Inr (bm_coverHref m)"
    by (rule parseOpf_Inr)
  let ?sp = "opf_spine json opfRelPath"
  let ?d = "opf_dir opfRelPath"
  have sp: "\<forall>h \<in> set (bm_spine m). package_href ?d h"
    using m(2) opf_spine_hrefs by simp
  have ch: "\<forall>h \<in> ch_href ` set (bm_chapters m). package_href ?d h"
  proof (cases "length toc < length ?sp")
    case True
    with m(3) have "ch_href ` set (bm_chapters m) = set ?sp"
      by (simp add: mergeChaptersWithSpine_def merge_from_hrefs flip: set_map)
    with sp m(2) show ?thesis by simp
  next
    case False
    with m(3) have "bm_chapters m = toc" by simp
    with extractChapters_hrefs [OF toc] opf_spine_hrefs show ?thesis by auto
  qed
  have co: "\<forall>h \<in> set_option (bm_coverHref m). package_href ?d h"
  proof
    fix h assume "h \<in> set_option (bm_coverHref m)"
    then have "bm_coverHref m = Some h" by (cases "bm_coverHref m") auto
    with c manifestMap_hrefs show "package_href ?d h"
      by (auto intro: extractCoverHref_href)
  qed
  from s m(1) sp ch co show ?thesis by auto
qed

theorem manifest_hrefs_are_package_relative_witness:
  "parseOpf escape_pkg (U ''/b'') (U ''content.opf'') = Inr escape_manifest \<and>
   safeJoin (p_cwd escape_pkg) (U ''/b'') (bm_opfPath escape_manifest) = Inr (U ''/b/content.opf'') \<and>
   package_href (opf_dir (U ''content.opf'')) (U ''../../etc/passwd'') \<and>
   package_href (opf_dir (U ''content.opf'')) (U ''../x.png'')"
proof -
  note T = manifest_hrefs_are_package_relative [OF escape_pkg_parse]
  have m: "(U ''../../etc/passwd'') \<in> set (bm_spine escape_manifest) \<union> ch_href ` set (bm_chapters escape_manifest)
             \<union> set_option (bm_coverHref escape_manifest)"
    "(U ''../x.png'') \<in> set (bm_spine escape_manifest) \<union> ch_href ` set (bm_chapters escape_manifest)
             \<union> set_option (bm_coverHref escape_manifest)"
    by (simp_all add: escape_manifest_def)
  from T m have a: "package_href (opf_dir (U ''content.opf'')) (U ''../../etc/passwd'')"
    "package_href (opf_dir (U ''content.opf'')) (U ''../x.png'')"
    by blast+
  have s: "safeJoin (p_cwd escape_pkg) (U ''/b'') (bm_opfPath escape_manifest) = Inr (U ''/b/content.opf'')"
    by code_simp
  from escape_pkg_parse s a show ?thesis
    by (intro conjI)
qed

theorem manifest_lists_rejected_hrefs:
  "parseOpf escape_pkg (U ''/b'') (U ''content.opf'') =
     Inr \<lparr>bm_title = (U ''Untitled''), bm_opfPath = (U ''content.opf''),
          bm_spine = [(U ''../../etc/passwd'')],
          bm_chapters = [\<lparr>ch_title = (U ''passwd''), ch_href = (U ''../../etc/passwd'')\<rparr>],
          bm_coverHref = Some (U ''../x.png''), bm_vertical = False\<rparr> \<and>
   safeJoin (p_cwd escape_pkg) (U ''/b'') (U ''../../etc/passwd'') = Inl PathTraversal \<and>
   safeJoin (p_cwd escape_pkg) (U ''/b'') (U ''../x.png'') = Inl PathTraversal"
  by code_simp

subsection \<open>Chapters against the spine\<close>

text \<open>
  C3, as the code has it. For a package document that loads and has a non-empty
  resolved spine, \<open>parseOpf\<close> succeeds whenever chapter extraction and cover extraction
  do not throw (they throw only when \<open>safeJoin\<close> rejects the path of the NCX or of the
  navigation document, or on a \<open>properties\<close> value that is not a string). The manifest
  then has at least as many chapters as spine entries. When the discovered table of
  contents has fewer entries than the spine, or neither table yields an entry, there is
  exactly one chapter per spine entry, in spine order, with the spine's hrefs. When it
  has as many entries or more, the chapters are the discovered entries, unchanged.
\<close>

theorem chapters_cover_spine:
  assumes "safeJoin (p_cwd P) bookRootAbs opfRelPath = Inr opfAbs"
    and "readText (p_fs P) opfAbs = Inr opfXml"
    and "p_xml P opfXml = Inr json"
    and "opf_spine json opfRelPath \<noteq> []"
    and "extractChapters P bookRootAbs (opf_dir opfRelPath) json (opf_manifestMap json) (opf_spine json opfRelPath) = Inr toc"
    and "extractCoverHref P bookRootAbs (opf_dir opfRelPath) json (opf_manifestMap json) (opf_spine json opfRelPath) = Inr cover"
  shows "\<exists>m. parseOpf P bookRootAbs opfRelPath = Inr m \<and> bm_spine m = opf_spine json opfRelPath \<and>
           length (bm_spine m) \<le> length (bm_chapters m) \<and>
           (length toc < length (bm_spine m) \<longrightarrow> map ch_href (bm_chapters m) = bm_spine m) \<and>
           (length (bm_spine m) \<le> length toc \<longrightarrow> bm_chapters m = toc) \<and>
           (ncxChapters P bookRootAbs (opf_dir opfRelPath) json (opf_manifestMap json) = Inr [] \<longrightarrow>
            navChapters P bookRootAbs (opf_dir opfRelPath) (opf_manifestMap json) = Inr [] \<longrightarrow>
            map ch_href (bm_chapters m) = bm_spine m)"
proof -
  let ?sp = "opf_spine json opfRelPath"
  let ?ch = "if length toc < length ?sp then mergeChaptersWithSpine P bookRootAbs ?sp toc else toc"
  from detectVertical_total obtain b where b: "detectVertical P bookRootAbs ?sp opfRelPath = Inr b"
    by blast
  let ?m = "\<lparr>bm_title = opf_title json, bm_opfPath = opfRelPath, bm_spine = ?sp,
             bm_chapters = ?ch, bm_coverHref = cover, bm_vertical = b\<rparr>"
  from assms b have p: "parseOpf P bookRootAbs opfRelPath = Inr ?m"
    by (simp add: parseOpf_def parseOpf_json_def Let_def)
  have m: "map ch_href (mergeChaptersWithSpine P bookRootAbs ?sp toc) = ?sp"
    by (simp add: mergeChaptersWithSpine_def merge_from_hrefs)
  then have l: "length (mergeChaptersWithSpine P bookRootAbs ?sp toc) = length ?sp"
    by (metis length_map)
  have t: "map ch_href toc = ?sp"
    if "ncxChapters P bookRootAbs (opf_dir opfRelPath) json (opf_manifestMap json) = Inr []"
      "navChapters P bookRootAbs (opf_dir opfRelPath) (opf_manifestMap json) = Inr []"
    using that assms(5) by (auto simp: extractChapters_def spineChapters_hrefs)
  show ?thesis
    by (rule exI [of _ ?m]) (use p m l t in auto)
qed

theorem chapters_cover_spine_witness:
  "safeJoin (p_cwd plain_pkg) (U ''/b'') (U ''OEBPS/content.opf'') = Inr (U ''/b/OEBPS/content.opf'') \<and>
   readText (p_fs plain_pkg) (U ''/b/OEBPS/content.opf'') = Inr plain_opf_text \<and>
   p_xml plain_pkg plain_opf_text = Inr plain_opf \<and>
   opf_spine plain_opf (U ''OEBPS/content.opf'') \<noteq> [] \<and>
   extractChapters plain_pkg (U ''/b'') (opf_dir (U ''OEBPS/content.opf'')) plain_opf (opf_manifestMap plain_opf)
       (opf_spine plain_opf (U ''OEBPS/content.opf'')) =
     Inr [\<lparr>ch_title = (U ''One''), ch_href = (U ''OEBPS/c1.xhtml'')\<rparr>, \<lparr>ch_title = (U ''c2''), ch_href = (U ''OEBPS/c2.xhtml'')\<rparr>] \<and>
   extractCoverHref plain_pkg (U ''/b'') (opf_dir (U ''OEBPS/content.opf'')) plain_opf (opf_manifestMap plain_opf)
       (opf_spine plain_opf (U ''OEBPS/content.opf'')) = Inr None \<and>
   parseOpf plain_pkg (U ''/b'') (U ''OEBPS/content.opf'') = Inr plain_manifest \<and>
   length (bm_spine plain_manifest) \<le> length (bm_chapters plain_manifest) \<and>
   map ch_href (bm_chapters plain_manifest) = bm_spine plain_manifest"
proof -
  have s: "opf_spine plain_opf (U ''OEBPS/content.opf'') \<noteq> []"
    by code_simp
  have c: "extractChapters plain_pkg (U ''/b'') (opf_dir (U ''OEBPS/content.opf'')) plain_opf (opf_manifestMap plain_opf)
       (opf_spine plain_opf (U ''OEBPS/content.opf'')) =
     Inr [\<lparr>ch_title = (U ''One''), ch_href = (U ''OEBPS/c1.xhtml'')\<rparr>, \<lparr>ch_title = (U ''c2''), ch_href = (U ''OEBPS/c2.xhtml'')\<rparr>]"
    by code_simp
  have v: "extractCoverHref plain_pkg (U ''/b'') (opf_dir (U ''OEBPS/content.opf'')) plain_opf (opf_manifestMap plain_opf)
       (opf_spine plain_opf (U ''OEBPS/content.opf'')) = Inr None"
    by code_simp
  have n: "ncxChapters plain_pkg (U ''/b'') (opf_dir (U ''OEBPS/content.opf'')) plain_opf (opf_manifestMap plain_opf) = Inr []"
    "navChapters plain_pkg (U ''/b'') (opf_dir (U ''OEBPS/content.opf'')) (opf_manifestMap plain_opf) = Inr []"
    by code_simp+
  from chapters_cover_spine [OF plain_pkg_loads s c v] n plain_pkg_parse
  have "length (bm_spine plain_manifest) \<le> length (bm_chapters plain_manifest) \<and>
        map ch_href (bm_chapters plain_manifest) = bm_spine plain_manifest"
    by auto
  with plain_pkg_loads s c v plain_pkg_parse show ?thesis
    by (intro conjI) simp_all
qed

theorem more_chapters_than_spine:
  "parseOpf toc_pkg (U ''/b'') (U ''content.opf'') =
     Inr \<lparr>bm_title = (U ''Untitled''), bm_opfPath = (U ''content.opf''),
          bm_spine = [(U ''c1.xhtml'')],
          bm_chapters = [\<lparr>ch_title = (U ''One''), ch_href = (U ''c1.xhtml'')\<rparr>,
                         \<lparr>ch_title = (U ''Two''), ch_href = (U ''c1.xhtml#s2'')\<rparr>],
          bm_coverHref = None, bm_vertical = False\<rparr> \<and>
   length [\<lparr>ch_title = (U ''One''), ch_href = (U ''c1.xhtml'')\<rparr>, \<lparr>ch_title = (U ''Two''), ch_href = (U ''c1.xhtml#s2'')\<rparr>]
     \<noteq> length [(U ''c1.xhtml'')]"
  by code_simp

subsection \<open>The cover\<close>






























end
